theory Spec2Isabelle
  imports Main
begin

section \<open>Google Sheets integration: data model\<close>

text \<open>
  The embedding follows \<^verbatim>\<open>server/src/workflow-management/integrations/gsheet.ts\<close>.
  JavaScript objects are association lists holding their own enumerable properties in
  the order \<^verbatim>\<open>Object.keys\<close> lists them; \<^verbatim>\<open>null\<close> and \<^verbatim>\<open>undefined\<close> are \<open>None\<close>;
  a thrown error is the \<open>Inl\<close> branch of a sum; the console, the logger, the
  spreadsheet API and the timer are events appended to a trace.
\<close>

datatype jsval = JNull | JBool bool | JNum int | JStr string

type_synonym row = "(string \<times> jsval) list"

datatype error = Error string | TypeError string

fun message :: "error \<Rightarrow> string" where
  "message (Error m) = m"
| "message (TypeError m) = m"

datatype task_status = pending | completed | failed

record GoogleSheetUpdateTask =
  task_robotId :: string
  task_runId :: string
  task_status :: task_status
  task_retries :: int

definition MAX_RETRIES :: int where
  "MAX_RETRIES = 5"

text \<open>The registry \<^verbatim>\<open>googleSheetUpdateTasks\<close>: run id to task, in enumeration order.\<close>

type_synonym registry = "(string \<times> GoogleSheetUpdateTask) list"

text \<open>The fields of a run record (model \<^verbatim>\<open>Run\<close>) that the integration reads.\<close>

record run =
  run_status :: string
  serializableOutput :: "(string \<times> row list) list option"
  binaryOutput :: "(string \<times> string) list option"

record google_sheets =
  gs_email :: "string option"
  gs_sheet_id :: "string option"
  gs_sheet_name :: "string option"
  gs_access_token :: "string option"
  gs_refresh_token :: "string option"

text \<open>
  The \<^verbatim>\<open>integrations\<close> object of a robot: its \<^verbatim>\<open>google_sheets\<close> property and every
  other property it carries.
\<close>

record integrations =
  int_google_sheets :: "google_sheets option"
  int_others :: "(string \<times> jsval) list"

record robot =
  recording_meta_id :: string
  robot_integrations :: "integrations option"

text \<open>The payload of the OAuth client's \<^verbatim>\<open>tokens\<close> event.\<close>

record tokens =
  tok_access_token :: "string option"
  tok_refresh_token :: "string option"

text \<open>
  What one call of \<^verbatim>\<open>sheets.spreadsheets.values.append\<close> does: the \<^verbatim>\<open>tokens\<close> events
  the client emits while it authenticates, then a response status or a rejection.
\<close>

record append_outcome =
  tokens_events :: "tokens list"
  response :: "error + int"

datatype event =
    ConsoleLog string
  | ConsoleError string
  | LoggerLog string string
  | SheetsAppend string string string "jsval list list"
  | SetTimeout nat

text \<open>
  The collaborators: the two stores (a lookup finds a record, finds none, or rejects),
  the spreadsheet API (its outcome may depend on how many calls came before, so that a
  failure can be transient), and the trace of effects so far. The method
  \<^verbatim>\<open>robot.update\<close> belongs to the model class \<^verbatim>\<open>Robot\<close> and the ORM behind it, which
  are not among the sources: whether a call of it writes the stored record is a
  parameter, \<open>Robot_update_writes\<close>, of the instance as it is when \<^verbatim>\<open>update\<close> is called
  and of the value passed for \<^verbatim>\<open>integrations\<close>.
\<close>

record world =
  Run_store :: "string \<Rightarrow> error + run option"
  Robot_store :: "string \<Rightarrow> error + robot option"
  Robot_update_writes :: "robot \<Rightarrow> integrations \<Rightarrow> bool"
  sheets_api :: "nat \<Rightarrow> string \<Rightarrow> jsval list list \<Rightarrow> append_outcome"
  append_calls :: nat
  trace :: "event list"

section \<open>Effects: a computation changes the world and returns or throws\<close>

type_synonym 'a io = "world \<Rightarrow> (error + 'a) \<times> world"

definition io_return :: "'a \<Rightarrow> 'a io" where
  "io_return a w = (Inr a, w)"

definition io_throw :: "error \<Rightarrow> 'a io" where
  "io_throw e w = (Inl e, w)"

definition io_bind :: "'a io \<Rightarrow> ('a \<Rightarrow> 'b io) \<Rightarrow> 'b io" where
  "io_bind m f w = (case m w of (Inl e, w') \<Rightarrow> (Inl e, w') | (Inr a, w') \<Rightarrow> f a w')"

definition io_catch :: "'a io \<Rightarrow> (error \<Rightarrow> 'a io) \<Rightarrow> 'a io" where
  "io_catch m h w = (case m w of (Inl e, w') \<Rightarrow> h e w' | (Inr a, w') \<Rightarrow> (Inr a, w'))"

definition record_event :: "event \<Rightarrow> world \<Rightarrow> world" where
  "record_event ev w = w\<lparr>trace := trace w @ [ev]\<rparr>"

definition emit :: "event \<Rightarrow> unit io" where
  "emit ev w = (Inr (), record_event ev w)"

definition console_log :: "string \<Rightarrow> unit io" where
  "console_log s = emit (ConsoleLog s)"

definition console_error :: "string \<Rightarrow> unit io" where
  "console_error s = emit (ConsoleError s)"

definition logger_log :: "string \<Rightarrow> string \<Rightarrow> unit io" where
  "logger_log level s = emit (LoggerLog level s)"

definition Run_findOne :: "string \<Rightarrow> run option io" where
  "Run_findOne runId w = (Run_store w runId, w)"

definition Robot_findOne :: "string \<Rightarrow> robot option io" where
  "Robot_findOne robotId w = (Robot_store w robotId, w)"

section \<open>JavaScript helpers\<close>

definition Object_keys :: "row \<Rightarrow> string list" where
  "Object_keys r = map fst r"

definition Object_values :: "row \<Rightarrow> jsval list" where
  "Object_values r = map snd r"

text \<open>Truthiness of a value that is a string, \<^verbatim>\<open>null\<close> or \<^verbatim>\<open>undefined\<close>.\<close>

definition truthy :: "string option \<Rightarrow> bool" where
  "truthy s = (case s of None \<Rightarrow> False | Some x \<Rightarrow> x \<noteq> [])"

text \<open>\<^verbatim>\<open>plainRobot.integrations?.google_sheets?.f\<close>\<close>

definition gs_field :: "(google_sheets \<Rightarrow> string option) \<Rightarrow> robot \<Rightarrow> string option" where
  "gs_field f r =
     (case robot_integrations r of
        None \<Rightarrow> None
      | Some i \<Rightarrow> (case int_google_sheets i of None \<Rightarrow> None | Some g \<Rightarrow> f g))"

section \<open>writeDataToSheet\<close>

text \<open>
  The listener registered with \<^verbatim>\<open>oauth2Client.on("tokens", ...)\<close>: it copies the
  robot's integrations, fills in \<^verbatim>\<open>google_sheets\<close> if it is missing, overwrites the
  tokens the event carries and calls \<^verbatim>\<open>robot.update\<close>. \<open>merge_tokens\<close> is the value of
  \<^verbatim>\<open>updatedIntegrations\<close> when \<^verbatim>\<open>update\<close> is called.
\<close>

definition merge_tokens :: "tokens \<Rightarrow> integrations option \<Rightarrow> integrations" where
  "merge_tokens t ri =
     (let updatedIntegrations =
            (case ri of
               Some i \<Rightarrow> i
             | None \<Rightarrow> \<lparr>int_google_sheets = None, int_others = []\<rparr>);
          g0 = (case int_google_sheets updatedIntegrations of
                  Some g \<Rightarrow> g
                | None \<Rightarrow> \<lparr>gs_email = None, gs_sheet_id = None, gs_sheet_name = None,
                            gs_access_token = None, gs_refresh_token = None\<rparr>);
          g1 = (if truthy (tok_refresh_token t)
                then g0\<lparr>gs_refresh_token := tok_refresh_token t\<rparr> else g0);
          g2 = (if truthy (tok_access_token t)
                then g1\<lparr>gs_access_token := tok_access_token t\<rparr> else g1)
      in updatedIntegrations\<lparr>int_google_sheets := Some g2\<rparr>)"

text \<open>
  What the listener does to the instance before it calls \<^verbatim>\<open>update\<close>. The spread
  \<^verbatim>\<open>{ ...robot.integrations }\<close> copies the top level only: when \<^verbatim>\<open>robot.integrations\<close> has
  a \<^verbatim>\<open>google_sheets\<close> object, the copy's \<^verbatim>\<open>google_sheets\<close> is that same object, and the two
  assignments \<^verbatim>\<open>updatedIntegrations.google_sheets.refresh_token = ...\<close> and
  \<^verbatim>\<open>...access_token = ...\<close> write into it, so the instance's own integrations hold the new
  tokens already. When \<^verbatim>\<open>robot.integrations\<close> is \<^verbatim>\<open>null\<close> or has no \<^verbatim>\<open>google_sheets\<close>, the
  object that receives the tokens is new and belongs to the copy alone.
\<close>

definition written_in_place :: "tokens \<Rightarrow> integrations option \<Rightarrow> integrations option" where
  "written_in_place t ri =
     (case ri of
        None \<Rightarrow> None
      | Some i \<Rightarrow>
          (case int_google_sheets i of
             None \<Rightarrow> Some i
           | Some g \<Rightarrow> Some (merge_tokens t (Some i))))"

text \<open>
  \<^verbatim>\<open>robot.update({ integrations })\<close>: the instance takes the value, and the stored record
  is written when the world's \<open>Robot_update_writes\<close> says so. The listener is not awaited
  by the client that emits the event, so a rejection of the update would not reach
  \<^verbatim>\<open>writeDataToSheet\<close>.
\<close>

definition robot_update :: "string \<Rightarrow> robot \<Rightarrow> integrations \<Rightarrow> world \<Rightarrow> robot \<times> world" where
  "robot_update robotId r i w =
     (let r' = r\<lparr>robot_integrations := Some i\<rparr>
      in (r', if Robot_update_writes w r i
              then w\<lparr>Robot_store := (Robot_store w)(robotId := Inr (Some r'))\<rparr>
              else w))"

definition on_tokens :: "string \<Rightarrow> robot \<Rightarrow> tokens \<Rightarrow> world \<Rightarrow> robot \<times> world" where
  "on_tokens robotId r t w =
     (let updatedIntegrations = merge_tokens t (robot_integrations r);
          r1 = r\<lparr>robot_integrations := written_in_place t (robot_integrations r)\<rparr>
      in robot_update robotId r1 updatedIntegrations w)"

fun emit_tokens :: "string \<Rightarrow> robot \<Rightarrow> tokens list \<Rightarrow> world \<Rightarrow> robot \<times> world" where
  "emit_tokens robotId r [] w = (r, w)"
| "emit_tokens robotId r (t # ts) w =
     (case on_tokens robotId r t w of (r', w') \<Rightarrow> emit_tokens robotId r' ts w')"

text \<open>
  \<^verbatim>\<open>sheets.spreadsheets.values.append\<close> with the listener attached: the request is
  recorded, the listener runs for every \<^verbatim>\<open>tokens\<close> event, and the call resolves to the
  response status or rejects.
\<close>

definition spreadsheets_values_append ::
  "string \<Rightarrow> robot \<Rightarrow> string \<Rightarrow> string \<Rightarrow> string \<Rightarrow> jsval list list \<Rightarrow> int io" where
  "spreadsheets_values_append robotId r spreadsheetId a1range valueInputOption values w =
     (let out = sheets_api w (append_calls w) spreadsheetId values;
          w1 = record_event (SheetsAppend spreadsheetId a1range valueInputOption values)
                 (w\<lparr>append_calls := Suc (append_calls w)\<rparr>);
          w2 = snd (emit_tokens robotId r (tokens_events out) w1)
      in (response out, w2))"

definition writeDataToSheet_try :: "string \<Rightarrow> string \<Rightarrow> jsval list list \<Rightarrow> unit io" where
  "writeDataToSheet_try robotId spreadsheetId data =
     io_bind (Robot_findOne robotId) (\<lambda>found.
       case found of
         None \<Rightarrow> io_throw (Error (''Robot not found for robotId: '' @ robotId))
       | Some r \<Rightarrow>
           if \<not> truthy (gs_field gs_access_token r) \<or> \<not> truthy (gs_field gs_refresh_token r)
           then io_throw (Error ''Google Sheets access not configured for user'')
           else
             io_bind (console_log (''Attempting to write to spreadsheet: '' @ spreadsheetId)) (\<lambda>_.
             io_bind (spreadsheets_values_append robotId r spreadsheetId
                        ''Sheet1!A1'' ''USER_ENTERED'' data) (\<lambda>status.
             io_bind (if status = 200
                      then console_log ''Data successfully appended to Google Sheet.''
                      else console_error ''Google Sheets append failed:'') (\<lambda>_.
             logger_log ''info'' (''Data written to Google Sheet: '' @ spreadsheetId)))))"

definition writeDataToSheet :: "string \<Rightarrow> string \<Rightarrow> jsval list list \<Rightarrow> unit io" where
  "writeDataToSheet robotId spreadsheetId data =
     io_catch (writeDataToSheet_try robotId spreadsheetId data) (\<lambda>e.
       io_bind (logger_log ''error'' (''Error writing data to Google Sheet: '' @ message e)) (\<lambda>_.
       io_throw e))"

section \<open>updateGoogleSheet\<close>

text \<open>
  The choice of \<^verbatim>\<open>data\<close>: \<^verbatim>\<open>serializableOutput["item-0"]\<close> when \<^verbatim>\<open>serializableOutput\<close>
  has a key (\<open>None\<close> is \<^verbatim>\<open>undefined\<close>, when it has no \<^verbatim>\<open>item-0\<close>), else one placeholder row
  for a truthy \<^verbatim>\<open>binaryOutput["item-0"]\<close>, else the initial empty array.
\<close>

definition binary_data :: "run \<Rightarrow> row list" where
  "binary_data plainRun =
     (case binaryOutput plainRun of
        None \<Rightarrow> []
      | Some bo \<Rightarrow>
          (if truthy (map_of bo ''item-0'')
           then (case map_of bo ''item-0'' of
                   Some binaryUrl \<Rightarrow> [[(''Screenshot URL'', JStr binaryUrl)]]
                 | None \<Rightarrow> [])
           else []))"

definition select_data :: "run \<Rightarrow> row list option" where
  "select_data plainRun =
     (case serializableOutput plainRun of
        Some so \<Rightarrow>
          (if length so > 0 then map_of so ''item-0'' else Some (binary_data plainRun))
      | None \<Rightarrow> Some (binary_data plainRun))"

text \<open>
  \<^verbatim>\<open>[Object.keys(data[0]), ...data.map(Object.values)]\<close>. Reading \<^verbatim>\<open>data[0]\<close> of
  \<^verbatim>\<open>undefined\<close> throws, and so does \<^verbatim>\<open>Object.keys\<close> of the \<^verbatim>\<open>undefined\<close> first element
  of an empty array.
\<close>

definition build_outputData :: "row list option \<Rightarrow> error + jsval list list" where
  "build_outputData data =
     (case data of
        None \<Rightarrow> Inl (TypeError ''Cannot read properties of undefined (reading 0)'')
      | Some [] \<Rightarrow> Inl (TypeError ''Cannot convert undefined or null to object'')
      | Some (first # rest) \<Rightarrow>
          Inr (map JStr (Object_keys first) # map Object_values (first # rest)))"

definition updateGoogleSheet_try :: "string \<Rightarrow> string \<Rightarrow> unit io" where
  "updateGoogleSheet_try robotId runId =
     io_bind (Run_findOne runId) (\<lambda>found_run.
       case found_run of
         None \<Rightarrow> io_throw (Error (''Run not found for runId: '' @ runId))
       | Some plainRun \<Rightarrow>
           if run_status plainRun = ''success'' then
             (let data = select_data plainRun in
              io_bind (Robot_findOne robotId) (\<lambda>found_robot.
                case found_robot of
                  None \<Rightarrow> io_throw (Error (''Robot not found for robotId: '' @ robotId))
                | Some plainRobot \<Rightarrow>
                    (let email = gs_field gs_email plainRobot;
                         spreadsheetId = gs_field gs_sheet_id plainRobot
                     in if truthy email \<and> truthy spreadsheetId then
                          (case spreadsheetId of
                             None \<Rightarrow> io_return ()
                           | Some sid \<Rightarrow>
                               io_bind (console_log
                                 (''Preparing to write data to Google Sheet for robot: '' @ robotId
                                  @ '', spreadsheetId: '' @ sid)) (\<lambda>_.
                               case build_outputData data of
                                 Inl e \<Rightarrow> io_throw e
                               | Inr outputData \<Rightarrow>
                                   io_bind (writeDataToSheet robotId sid outputData) (\<lambda>_.
                                   console_log
                                     (''Data written to Google Sheet successfully for Robot: ''
                                      @ robotId @ '' and Run: '' @ runId))))
                        else console_log ''Google Sheets integration not configured.'')))
           else console_log ''Run status is not success or serializableOutput is missing.'')"

definition updateGoogleSheet :: "string \<Rightarrow> string \<Rightarrow> unit io" where
  "updateGoogleSheet robotId runId =
     io_catch (updateGoogleSheet_try robotId runId) (\<lambda>e.
       console_error (''Failed to write data to Google Sheet for Robot: '' @ robotId
                      @ '' and Run: '' @ runId @ '': '' @ message e))"

text \<open>The append requests among the events of a trace, in order.\<close>

fun append_requests :: "event list \<Rightarrow> (string \<times> string \<times> string \<times> jsval list list) list" where
  "append_requests [] = []"
| "append_requests (SheetsAppend spreadsheetId a1range valueInputOption values # evs) =
     (spreadsheetId, a1range, valueInputOption, values) # append_requests evs"
| "append_requests (_ # evs) = append_requests evs"

section \<open>processGoogleSheetUpdates\<close>

fun status_str :: "task_status \<Rightarrow> string" where
  "status_str pending = ''pending''"
| "status_str completed = ''completed''"
| "status_str failed = ''failed''"

text \<open>Decimal digits of a number, for the template literal that prints the retry count.\<close>

fun show_nat :: "nat \<Rightarrow> string" where
  "show_nat n =
     (if n < 10 then [''0123456789'' ! n]
      else show_nat (n div 10) @ [''0123456789'' ! (n mod 10)])"

definition show_int :: "int \<Rightarrow> string" where
  "show_int i = (if i < 0 then ''-'' @ show_nat (nat (- i)) else show_nat (nat i))"

text \<open>\<^verbatim>\<open>delete googleSheetUpdateTasks[runId]\<close>\<close>

definition reg_delete :: "string \<Rightarrow> registry \<Rightarrow> registry" where
  "reg_delete runId tasks = filter (\<lambda>kv. fst kv \<noteq> runId) tasks"

text \<open>An assignment to a field of \<^verbatim>\<open>googleSheetUpdateTasks[runId]\<close>: the entry keeps its place.\<close>

fun reg_modify ::
  "(GoogleSheetUpdateTask \<Rightarrow> GoogleSheetUpdateTask) \<Rightarrow> string \<Rightarrow> registry \<Rightarrow> registry" where
  "reg_modify f runId [] = []"
| "reg_modify f runId ((k, t) # tasks) =
     (if k = runId then (k, f t) # tasks else (k, t) # reg_modify f runId tasks)"

text \<open>
  The body of the \<^verbatim>\<open>for ... in\<close> loop for one key, on the registry, the world and the
  flag \<^verbatim>\<open>hasPendingTasks\<close>. The attempt is a parameter (\<^verbatim>\<open>updateGoogleSheet\<close> in the
  source), so that both arms of the \<^verbatim>\<open>try\<close>/\<^verbatim>\<open>catch\<close> are branches of the model. A key
  whose entry is gone when the loop reaches it is not visited. The attempt works on the
  world and cannot touch the registry, and nothing else runs while the processor awaits.
\<close>

definition process_entry ::
  "(string \<Rightarrow> string \<Rightarrow> unit io) \<Rightarrow> string \<Rightarrow> registry \<times> world \<times> bool \<Rightarrow> registry \<times> world \<times> bool" where
  "process_entry attempt runId s =
     (case s of (tasks, w, hasPendingTasks) \<Rightarrow>
        (case map_of tasks runId of
           None \<Rightarrow> s
         | Some task \<Rightarrow>
             (let w1 = record_event (ConsoleLog (''Processing task for runId: '' @ runId
                          @ '', status: '' @ status_str (task_status task))) w
              in if task_status task = pending then
                   (case attempt (task_robotId task) (task_runId task) w1 of
                      (Inr _, w2) \<Rightarrow>
                        (reg_delete runId tasks,
                         record_event (ConsoleLog
                           (''Successfully updated Google Sheet for runId: '' @ runId)) w2,
                         True)
                    | (Inl e, w2) \<Rightarrow>
                        (let w3 = record_event (ConsoleError
                                    (''Failed to update Google Sheets for run '' @ task_runId task
                                     @ '': '' @ message e)) w2
                         in if task_retries task < MAX_RETRIES then
                              (reg_modify (\<lambda>t. t\<lparr>task_retries := task_retries t + 1\<rparr>) runId tasks,
                               record_event (ConsoleLog
                                 (''Retrying task for runId: '' @ runId @ '', attempt: ''
                                  @ show_int (task_retries task + 1))) w3,
                               True)
                            else
                              (reg_modify (\<lambda>t. t\<lparr>task_status := failed\<rparr>) runId tasks,
                               record_event (ConsoleLog
                                 (''Max retries reached for runId: '' @ runId
                                  @ ''. Marking task as failed.'')) w3,
                               True)))
                 else (tasks, w1, hasPendingTasks))))"

text \<open>One pass of the \<^verbatim>\<open>for ... in\<close> loop over the keys it enumerates.\<close>

fun scan ::
  "(string \<Rightarrow> string \<Rightarrow> unit io) \<Rightarrow> string list \<Rightarrow> registry \<times> world \<times> bool \<Rightarrow> registry \<times> world \<times> bool" where
  "scan attempt [] s = s"
| "scan attempt (runId # runIds) s = scan attempt runIds (process_entry attempt runId s)"

text \<open>
  The measure of the \<^verbatim>\<open>while (true)\<close> loop: what a pending task can still cost, one
  step to leave the pending state and one for each retry it has left.
\<close>

definition task_weight :: "GoogleSheetUpdateTask \<Rightarrow> nat" where
  "task_weight t =
     (if task_status t = pending then Suc (nat (MAX_RETRIES - task_retries t)) else 0)"

definition registry_weight :: "registry \<Rightarrow> nat" where
  "registry_weight tasks = sum_list (map (\<lambda>kv. task_weight (snd kv)) tasks)"

text \<open>A pass that met a pending task lowers the measure.\<close>

lemma registry_weight_delete_le: "registry_weight (reg_delete k tasks) \<le> registry_weight tasks"
  by (induction tasks) (auto simp: registry_weight_def reg_delete_def)

lemma registry_weight_delete_less:
  "map_of tasks k = Some t \<Longrightarrow> 0 < task_weight t \<Longrightarrow>
   registry_weight (reg_delete k tasks) < registry_weight tasks"
proof (induction tasks)
  case Nil
  then show ?case by simp
next
  case (Cons kv tasks)
  show ?case
  proof (cases "fst kv = k")
    case True
    with Cons.prems have "snd kv = t" by (cases kv) simp
    moreover have "registry_weight (reg_delete k tasks) \<le> registry_weight tasks"
      by (rule registry_weight_delete_le)
    ultimately show ?thesis
      using True Cons.prems(2) by (simp add: registry_weight_def reg_delete_def)
  next
    case False
    with Cons.prems have "map_of tasks k = Some t" by (cases kv) (simp split: if_splits)
    from Cons.IH[OF this Cons.prems(2)] False show ?thesis
      by (simp add: registry_weight_def reg_delete_def)
  qed
qed

lemma registry_weight_modify_less:
  "map_of tasks k = Some t \<Longrightarrow> task_weight (f t) < task_weight t \<Longrightarrow>
   registry_weight (reg_modify f k tasks) < registry_weight tasks"
proof (induction tasks)
  case Nil
  then show ?case by simp
next
  case (Cons kv tasks)
  obtain k' t' where kv: "kv = (k', t')" by (cases kv)
  show ?case
  proof (cases "k' = k")
    case True
    with Cons.prems kv show ?thesis by (simp add: registry_weight_def)
  next
    case False
    with Cons.prems kv have "map_of tasks k = Some t" by simp
    from Cons.IH[OF this Cons.prems(2)] False kv show ?thesis
      by (simp add: registry_weight_def)
  qed
qed

lemma process_entry_weight:
  assumes "process_entry attempt k (tasks, w, b) = (tasks', w', b')"
  shows "registry_weight tasks' \<le> registry_weight tasks"
    and "b' \<Longrightarrow> \<not> b \<Longrightarrow> registry_weight tasks' < registry_weight tasks"
proof -
  have "registry_weight tasks' \<le> registry_weight tasks \<and>
        (b' \<and> \<not> b \<longrightarrow> registry_weight tasks' < registry_weight tasks)"
  proof (cases "map_of tasks k")
    case None
    with assms show ?thesis by (simp add: process_entry_def)
  next
    case (Some t)
    show ?thesis
    proof (cases "task_status t = pending")
      case False
      with Some assms show ?thesis by (auto simp: process_entry_def Let_def)
    next
      case True
      have pos: "0 < task_weight t" using True by (simp add: task_weight_def)
      have del: "registry_weight (reg_delete k tasks) < registry_weight tasks"
        by (rule registry_weight_delete_less[OF Some pos])
      have inc: "task_retries t < MAX_RETRIES \<Longrightarrow>
        registry_weight (reg_modify (\<lambda>t. t\<lparr>task_retries := task_retries t + 1\<rparr>) k tasks) < registry_weight tasks"
        by (rule registry_weight_modify_less[OF Some]) (use True in \<open>simp add: task_weight_def\<close>)
      have fl: "registry_weight (reg_modify (\<lambda>t. t\<lparr>task_status := failed\<rparr>) k tasks) < registry_weight tasks"
        by (rule registry_weight_modify_less[OF Some]) (use True in \<open>simp add: task_weight_def\<close>)
      from assms Some True del inc fl show ?thesis
        by (auto simp: process_entry_def Let_def split: prod.splits sum.splits if_splits)
    qed
  qed
  then show "registry_weight tasks' \<le> registry_weight tasks"
    and "b' \<Longrightarrow> \<not> b \<Longrightarrow> registry_weight tasks' < registry_weight tasks" by auto
qed

lemma scan_weight:
  "scan attempt ks (tasks, w, b) = (tasks', w', b') \<Longrightarrow>
   registry_weight tasks' \<le> registry_weight tasks \<and>
   (b' \<and> \<not> b \<longrightarrow> registry_weight tasks' < registry_weight tasks)"
proof (induction ks arbitrary: tasks w b)
  case Nil
  then show ?case by simp
next
  case (Cons k ks)
  obtain t1 w1 b1 where pe: "process_entry attempt k (tasks, w, b) = (t1, w1, b1)"
    by (cases "process_entry attempt k (tasks, w, b)") auto
  with Cons.prems have sc: "scan attempt ks (t1, w1, b1) = (tasks', w', b')" by simp
  note ih = Cons.IH[OF sc]
  note p1 = process_entry_weight[OF pe]
  show ?case
  proof (cases b1)
    case True
    with ih p1 show ?thesis by (cases b) auto
  next
    case False
    with ih p1 show ?thesis by auto
  qed
qed

text \<open>
  The \<^verbatim>\<open>while (true)\<close> loop: a pass over the keys, then either the exit or the
  five-second timer and the next pass.
\<close>

function processGoogleSheetUpdates_with ::
  "(string \<Rightarrow> string \<Rightarrow> unit io) \<Rightarrow> registry \<times> world \<Rightarrow> registry \<times> world" where
  "processGoogleSheetUpdates_with attempt (tasks, w) =
     (case scan attempt (map fst tasks) (tasks, w, False) of
        (tasks', w', hasPendingTasks) \<Rightarrow>
          if \<not> hasPendingTasks
          then (tasks', record_event (ConsoleLog ''No pending tasks. Exiting loop.'') w')
          else processGoogleSheetUpdates_with attempt
                 (tasks',
                  record_event (SetTimeout 5000)
                    (record_event (ConsoleLog ''Waiting for 5 seconds before checking again...'') w')))"
  by pat_completeness auto
termination
  apply (relation "measure (\<lambda>(attempt, tasks, w). registry_weight tasks)")
   apply simp
  apply clarsimp
  apply (drule sym)
  apply (drule scan_weight)
  apply simp
  done

declare processGoogleSheetUpdates_with.simps [simp del]

text \<open>The exported processor: every attempt is a call of \<^verbatim>\<open>updateGoogleSheet\<close>.\<close>

definition processGoogleSheetUpdates :: "registry \<times> world \<Rightarrow> registry \<times> world" where
  "processGoogleSheetUpdates = processGoogleSheetUpdates_with updateGoogleSheet"

section \<open>Notions used to state the properties\<close>

text \<open>
  The rows as the specification words them: the header is the key list of the first
  data row, and every data row gives its values in the order of the header keys (a key
  the row lacks gives \<^verbatim>\<open>null\<close>).
\<close>

definition values_by_header :: "string list \<Rightarrow> row \<Rightarrow> jsval list" where
  "values_by_header headers r =
     map (\<lambda>k. case map_of r k of Some v \<Rightarrow> v | None \<Rightarrow> JNull) headers"

definition claimed_outputData :: "row \<Rightarrow> row list \<Rightarrow> jsval list list" where
  "claimed_outputData first rest =
     map JStr (Object_keys first) # map (values_by_header (Object_keys first)) (first # rest)"

text \<open>The properties of \<^verbatim>\<open>robot.integrations\<close> other than \<^verbatim>\<open>google_sheets\<close>.\<close>

definition other_integrations :: "robot \<Rightarrow> (string \<times> jsval) list" where
  "other_integrations r = (case robot_integrations r of None \<Rightarrow> [] | Some i \<Rightarrow> int_others i)"

text \<open>
  The \<^verbatim>\<open>google_sheets\<close> object the listener starts from: the stored one, or the
  all-\<^verbatim>\<open>null\<close> object it creates.
\<close>

definition gs_of :: "integrations option \<Rightarrow> google_sheets" where
  "gs_of ri =
     (case ri of
        None \<Rightarrow> \<lparr>gs_email = None, gs_sheet_id = None, gs_sheet_name = None,
                  gs_access_token = None, gs_refresh_token = None\<rparr>
      | Some i \<Rightarrow>
          (case int_google_sheets i of
             None \<Rightarrow> \<lparr>gs_email = None, gs_sheet_id = None, gs_sheet_name = None,
                       gs_access_token = None, gs_refresh_token = None\<rparr>
           | Some g \<Rightarrow> g))"

text \<open>The instance has a \<^verbatim>\<open>google_sheets\<close> object under \<^verbatim>\<open>integrations\<close>.\<close>

definition has_google_sheets :: "robot \<Rightarrow> bool" where
  "has_google_sheets r =
     (case robot_integrations r of None \<Rightarrow> False | Some i \<Rightarrow> int_google_sheets i \<noteq> None)"

text \<open>The line the processor logs when it reaches a task.\<close>

definition processing_line :: "string \<Rightarrow> GoogleSheetUpdateTask \<Rightarrow> event" where
  "processing_line k t =
     ConsoleLog (''Processing task for runId: '' @ k @ '', status: '' @ status_str (task_status t))"

text \<open>The delays of the timers set among the events of a trace, in order.\<close>

fun timeouts :: "event list \<Rightarrow> nat list" where
  "timeouts [] = []"
| "timeouts (SetTimeout ms # evs) = ms # timeouts evs"
| "timeouts (_ # evs) = timeouts evs"

section \<open>Example records and worlds\<close>

definition robot_configured :: robot where
  "robot_configured =
     \<lparr>recording_meta_id = ''robot-1'',
      robot_integrations = Some
        \<lparr>int_google_sheets = Some
           \<lparr>gs_email = Some ''user@example.com'', gs_sheet_id = Some ''sheet-1'',
            gs_sheet_name = Some ''Results'', gs_access_token = Some ''at-0'',
            gs_refresh_token = Some ''rt-0''\<rparr>,
         int_others = [(''airtable'', JStr ''base-1'')]\<rparr>\<rparr>"

definition robot_no_sheet :: robot where
  "robot_no_sheet =
     \<lparr>recording_meta_id = ''robot-1'',
      robot_integrations = Some
        \<lparr>int_google_sheets = Some
           \<lparr>gs_email = Some ''user@example.com'', gs_sheet_id = None,
            gs_sheet_name = None, gs_access_token = Some ''at-0'',
            gs_refresh_token = Some ''rt-0''\<rparr>,
         int_others = []\<rparr>\<rparr>"

definition run_structured :: run where
  "run_structured =
     \<lparr>run_status = ''success'',
      serializableOutput = Some
        [(''item-0'', [[(''a'', JNum 1), (''b'', JNum 2)], [(''a'', JNum 3), (''b'', JNum 4)]])],
      binaryOutput = None\<rparr>"

definition run_reordered :: run where
  "run_reordered =
     \<lparr>run_status = ''success'',
      serializableOutput = Some
        [(''item-0'', [[(''a'', JNum 1), (''b'', JNum 2)], [(''b'', JNum 4), (''a'', JNum 3)]])],
      binaryOutput = None\<rparr>"

definition run_screenshot :: run where
  "run_screenshot =
     \<lparr>run_status = ''success'',
      serializableOutput = Some [],
      binaryOutput = Some [(''item-0'', ''https://x/y.png'')]\<rparr>"

definition api_ok :: "nat \<Rightarrow> string \<Rightarrow> jsval list list \<Rightarrow> append_outcome" where
  "api_ok n spreadsheetId values = \<lparr>tokens_events = [], response = Inr 200\<rparr>"

definition api_down :: "nat \<Rightarrow> string \<Rightarrow> jsval list list \<Rightarrow> append_outcome" where
  "api_down n spreadsheetId values =
     \<lparr>tokens_events = [], response = Inl (Error ''ECONNRESET'')\<rparr>"

definition api_refresh :: "nat \<Rightarrow> string \<Rightarrow> jsval list list \<Rightarrow> append_outcome" where
  "api_refresh n spreadsheetId values =
     \<lparr>tokens_events =
        [\<lparr>tok_access_token = Some ''at-1'', tok_refresh_token = Some ''rt-1''\<rparr>,
         \<lparr>tok_access_token = Some ''at-2'', tok_refresh_token = None\<rparr>],
      response = Inr 200\<rparr>"

text \<open>
  Two behaviours of \<^verbatim>\<open>update\<close>. An ORM with change detection, as Sequelize's \<^verbatim>\<open>Model\<close>,
  compares the value it is given with the value the instance holds and sends nothing to
  the database when they are equal; the other one writes whatever it is given.
\<close>

definition writes_if_changed :: "robot \<Rightarrow> integrations \<Rightarrow> bool" where
  "writes_if_changed r i = (robot_integrations r \<noteq> Some i)"

definition writes_always :: "robot \<Rightarrow> integrations \<Rightarrow> bool" where
  "writes_always r i = True"

definition mk_world ::
  "run \<Rightarrow> robot \<Rightarrow> (nat \<Rightarrow> string \<Rightarrow> jsval list list \<Rightarrow> append_outcome) \<Rightarrow> world" where
  "mk_world rn rb api =
     \<lparr>Run_store = (\<lambda>runId. if runId = ''run-1'' then Inr (Some rn) else Inr None),
      Robot_store = (\<lambda>robotId. if robotId = ''robot-1'' then Inr (Some rb) else Inr None),
      Robot_update_writes = writes_if_changed,
      sheets_api = api, append_calls = 0, trace = []\<rparr>"

definition task_1 :: "int \<Rightarrow> GoogleSheetUpdateTask" where
  "task_1 n = \<lparr>task_robotId = ''robot-1'', task_runId = ''run-1'', task_status = pending,
               task_retries = n\<rparr>"

text \<open>Attempts that always succeed or always throw, and a registry with a failed task.\<close>

definition attempt_ok :: "string \<Rightarrow> string \<Rightarrow> unit io" where
  "attempt_ok robotId runId = io_return ()"

definition attempt_fails :: "string \<Rightarrow> string \<Rightarrow> unit io" where
  "attempt_fails robotId runId = io_throw (Error ''quota exceeded'')"

definition task_failed :: GoogleSheetUpdateTask where
  "task_failed = \<lparr>task_robotId = ''robot-1'', task_runId = ''run-0'', task_status = failed,
                  task_retries = 5\<rparr>"

definition registry_mixed :: registry where
  "registry_mixed = [(''run-0'', task_failed), (''run-1'', task_1 0)]"

section \<open>Traces of the sheet writer\<close>

lemma append_requests_append [simp]:
  "append_requests (xs @ ys) = append_requests xs @ append_requests ys"
  by (induction xs rule: append_requests.induct) simp_all

lemmas io_defs = io_return_def io_throw_def io_bind_def io_catch_def emit_def record_event_def
  console_log_def console_error_def logger_log_def Run_findOne_def Robot_findOne_def

lemma on_tokens_frame:
  "trace (snd (on_tokens robotId r t w)) = trace w"
  "Run_store (snd (on_tokens robotId r t w)) = Run_store w"
  "sheets_api (snd (on_tokens robotId r t w)) = sheets_api w"
  "append_calls (snd (on_tokens robotId r t w)) = append_calls w"
  by (simp_all add: on_tokens_def robot_update_def Let_def)


lemma emit_tokens_frame:
  "trace (snd (emit_tokens robotId r ts w)) = trace w \<and>
   Run_store (snd (emit_tokens robotId r ts w)) = Run_store w \<and>
   sheets_api (snd (emit_tokens robotId r ts w)) = sheets_api w \<and>
   append_calls (snd (emit_tokens robotId r ts w)) = append_calls w"
proof (induction ts arbitrary: r w)
  case Nil
  show ?case by simp
next
  case (Cons t ts)
  obtain r' w' where ot: "on_tokens robotId r t w = (r', w')"
    by (cases "on_tokens robotId r t w") auto
  have "w' = snd (on_tokens robotId r t w)" using ot by simp
  then have fr: "trace w' = trace w" "Run_store w' = Run_store w"
    "sheets_api w' = sheets_api w" "append_calls w' = append_calls w"
    by (simp_all add: on_tokens_frame)
  from Cons.IH[of r' w'] ot fr show ?case by simp
qed

lemma spreadsheets_values_append_trace:
  "trace (snd (spreadsheets_values_append robotId r sid rng opt vals w)) =
   trace w @ [SheetsAppend sid rng opt vals]"
  by (simp add: spreadsheets_values_append_def Let_def emit_tokens_frame record_event_def)

lemma writeDataToSheet_requests:
  assumes "Robot_store w robotId = Inr (Some r)"
    and "truthy (gs_field gs_access_token r)" and "truthy (gs_field gs_refresh_token r)"
  shows "append_requests (trace (snd (writeDataToSheet robotId sid vals w))) =
         append_requests (trace w) @ [(sid, ''Sheet1!A1'', ''USER_ENTERED'', vals)]"
proof -
  let ?w1 = "record_event (ConsoleLog (''Attempting to write to spreadsheet: '' @ sid)) w"
  let ?ap = "spreadsheets_values_append robotId r sid ''Sheet1!A1'' ''USER_ENTERED'' vals ?w1"
  have tr: "trace (snd ?ap) = trace ?w1 @ [SheetsAppend sid ''Sheet1!A1'' ''USER_ENTERED'' vals]"
    by (rule spreadsheets_values_append_trace)
  obtain res w2 where ap: "?ap = (res, w2)" by (cases ?ap) auto
  with tr have tr2: "trace w2 = trace w @ [ConsoleLog (''Attempting to write to spreadsheet: '' @ sid),
      SheetsAppend sid ''Sheet1!A1'' ''USER_ENTERED'' vals]"
    by (simp add: record_event_def)
  show ?thesis using assms ap tr2
    by (cases res) (simp_all add: writeDataToSheet_def writeDataToSheet_try_def io_defs)
qed

lemma writeDataToSheet_no_tokens:
  assumes "Robot_store w robotId = Inr (Some r)"
    and "\<not> truthy (gs_field gs_access_token r) \<or> \<not> truthy (gs_field gs_refresh_token r)"
  shows "append_requests (trace (snd (writeDataToSheet robotId sid vals w))) =
         append_requests (trace w)"
  using assms by (auto simp add: writeDataToSheet_def writeDataToSheet_try_def io_defs)

lemma updateGoogleSheet_requests:
  assumes "Run_store w runId = Inr (Some plainRun)" and "run_status plainRun = ''success''"
    and "Robot_store w robotId = Inr (Some r)"
    and "truthy (gs_field gs_email r)" and "gs_field gs_sheet_id r = Some sid" and "sid \<noteq> []"
    and "truthy (gs_field gs_access_token r)" and "truthy (gs_field gs_refresh_token r)"
    and "build_outputData (select_data plainRun) = Inr outputData"
  shows "append_requests (trace (snd (updateGoogleSheet robotId runId w))) =
         append_requests (trace w) @ [(sid, ''Sheet1!A1'', ''USER_ENTERED'', outputData)]"
proof -
  let ?w1 = "record_event (ConsoleLog (''Preparing to write data to Google Sheet for robot: ''
               @ robotId @ '', spreadsheetId: '' @ sid)) w"
  have rs: "Robot_store ?w1 robotId = Inr (Some r)" using assms(3) by (simp add: record_event_def)
  have wr: "append_requests (trace (snd (writeDataToSheet robotId sid outputData ?w1))) =
        append_requests (trace w) @ [(sid, ''Sheet1!A1'', ''USER_ENTERED'', outputData)]"
    using writeDataToSheet_requests[OF rs assms(7) assms(8)] by (simp add: record_event_def)
  obtain res w2 where ap: "writeDataToSheet robotId sid outputData ?w1 = (res, w2)"
    by (cases "writeDataToSheet robotId sid outputData ?w1") auto
  with wr have "append_requests (trace w2) =
        append_requests (trace w) @ [(sid, ''Sheet1!A1'', ''USER_ENTERED'', outputData)]" by simp
  then show ?thesis using assms ap
    by (cases res) (simp_all add: updateGoogleSheet_def updateGoogleSheet_try_def io_defs truthy_def)
qed

lemmas gsheet_defs = updateGoogleSheet_def updateGoogleSheet_try_def writeDataToSheet_def
  writeDataToSheet_try_def spreadsheets_values_append_def build_outputData_def select_data_def
  binary_data_def gs_field_def truthy_def Object_keys_def Object_values_def

lemmas example_defs = mk_world_def run_structured_def run_reordered_def run_screenshot_def
  robot_configured_def robot_no_sheet_def api_down_def api_ok_def api_refresh_def task_1_def
  writes_if_changed_def writes_always_def

section \<open>Errors of the sheet writer and the processor's retry accounting\<close>



text \<open>
  Claim C1. The claim wants a failed append to reach the processor's \<^verbatim>\<open>catch\<close>, which
  counts it as a retry. The code does not do that: with a configured robot, a successful
  run and an API that rejects the append, \<^verbatim>\<open>writeDataToSheet\<close> logs and rethrows,
  \<^verbatim>\<open>updateGoogleSheet\<close> swallows the error, and the processor logs a success and deletes
  the task, its retry count untouched.
\<close>

theorem failed_append_is_not_retried:
  "fst (process_entry updateGoogleSheet ''run-1''
          ([(''run-1'', task_1 0)], mk_world run_structured robot_configured api_down, False)) = [] \<and>
   trace (fst (snd (process_entry updateGoogleSheet ''run-1''
          ([(''run-1'', task_1 0)], mk_world run_structured robot_configured api_down, False)))) =
   [ConsoleLog ''Processing task for runId: run-1, status: pending'',
    ConsoleLog ''Preparing to write data to Google Sheet for robot: robot-1, spreadsheetId: sheet-1'',
    ConsoleLog ''Attempting to write to spreadsheet: sheet-1'',
    SheetsAppend ''sheet-1'' ''Sheet1!A1'' ''USER_ENTERED''
      [[JStr ''a'', JStr ''b''], [JNum 1, JNum 2], [JNum 3, JNum 4]],
    LoggerLog ''error'' ''Error writing data to Google Sheet: ECONNRESET'',
    ConsoleError ''Failed to write data to Google Sheet for Robot: robot-1 and Run: run-1: ECONNRESET'',
    ConsoleLog ''Successfully updated Google Sheet for runId: run-1'']"
  by (simp add: process_entry_def io_defs gsheet_defs example_defs reg_delete_def Let_def)

section \<open>Rows sent to the sheet\<close>

lemma values_by_header_keys:
  "distinct (map fst r) \<Longrightarrow> values_by_header (map fst r) r = map snd r"
proof (induction r)
  case Nil
  show ?case by (simp add: values_by_header_def)
next
  case (Cons kv r)
  obtain k v where kv: "kv = (k, v)" by (cases kv)
  from Cons.prems kv have nk: "k \<notin> fst ` set r" and d: "distinct (map fst r)" by auto
  have "map (\<lambda>k'. case map_of ((k, v) # r) k' of Some v \<Rightarrow> v | None \<Rightarrow> JNull) (map fst r) =
        map (\<lambda>k'. case map_of r k' of Some v \<Rightarrow> v | None \<Rightarrow> JNull) (map fst r)"
    using nk by (intro map_cong) auto
  with Cons.IH[OF d] kv show ?case by (simp add: values_by_header_def)
qed

text \<open>
  Claim C5, as the code has it. For a successful run whose \<^verbatim>\<open>serializableOutput["item-0"]\<close>
  is a non-empty array of rows, and a robot with an email, a sheet id and both tokens,
  \<^verbatim>\<open>updateGoogleSheet\<close> makes one append call, and its rows are the key list of the first
  data row followed by \<^verbatim>\<open>Object.values\<close> of every data row: each row's values in that
  row's own key order. When every row lists the keys of the first row in the same order,
  these are the rows in header key order.
\<close>

theorem structured_output_rows:
  assumes "Run_store w runId = Inr (Some plainRun)" and "run_status plainRun = ''success''"
    and "serializableOutput plainRun = Some so" and "map_of so ''item-0'' = Some (first # rest)"
    and "Robot_store w robotId = Inr (Some r)"
    and "truthy (gs_field gs_email r)" and "gs_field gs_sheet_id r = Some sid" and "sid \<noteq> []"
    and "truthy (gs_field gs_access_token r)" and "truthy (gs_field gs_refresh_token r)"
  shows "append_requests (trace (snd (updateGoogleSheet robotId runId w))) =
           append_requests (trace w) @
           [(sid, ''Sheet1!A1'', ''USER_ENTERED'',
             map JStr (Object_keys first) # map Object_values (first # rest))] \<and>
         (distinct (Object_keys first) \<and> (\<forall>x \<in> set rest. Object_keys x = Object_keys first) \<longrightarrow>
            map JStr (Object_keys first) # map Object_values (first # rest) =
            claimed_outputData first rest)"
proof -
  from assms(4) have "so \<noteq> []" by auto
  with assms(3,4) have "select_data plainRun = Some (first # rest)"
    by (simp add: select_data_def)
  then have "build_outputData (select_data plainRun) =
        Inr (map JStr (Object_keys first) # map Object_values (first # rest))"
    by (simp add: build_outputData_def)
  from updateGoogleSheet_requests[OF assms(1,2,5,6,7,8,9,10) this]
  have a: "append_requests (trace (snd (updateGoogleSheet robotId runId w))) =
           append_requests (trace w) @
           [(sid, ''Sheet1!A1'', ''USER_ENTERED'',
             map JStr (Object_keys first) # map Object_values (first # rest))]" .
  have "map Object_values (first # rest) = map (values_by_header (Object_keys first)) (first # rest)"
    if d: "distinct (Object_keys first)" and s: "\<forall>x \<in> set rest. Object_keys x = Object_keys first"
  proof (rule map_cong[OF refl])
    fix x assume "x \<in> set (first # rest)"
    with s have k: "Object_keys x = Object_keys first" by auto
    with d have "distinct (map fst x)" by (simp add: Object_keys_def)
    from values_by_header_keys[OF this] k show "Object_values x = values_by_header (Object_keys first) x"
      by (simp add: Object_keys_def Object_values_def)
  qed
  with a show ?thesis by (simp add: claimed_outputData_def)
qed

theorem structured_output_rows_witness:
  "append_requests (trace (snd (updateGoogleSheet ''robot-1'' ''run-1''
      (mk_world run_structured robot_configured api_ok)))) =
   [(''sheet-1'', ''Sheet1!A1'', ''USER_ENTERED'',
     [[JStr ''a'', JStr ''b''], [JNum 1, JNum 2], [JNum 3, JNum 4]])] \<and>
   claimed_outputData [(''a'', JNum 1), (''b'', JNum 2)] [[(''a'', JNum 3), (''b'', JNum 4)]] =
     [[JStr ''a'', JStr ''b''], [JNum 1, JNum 2], [JNum 3, JNum 4]]"
  using structured_output_rows[of "mk_world run_structured robot_configured api_ok" "''run-1''" run_structured
      "[(''item-0'', [[(''a'', JNum 1), (''b'', JNum 2)], [(''a'', JNum 3), (''b'', JNum 4)]])]"
      "[(''a'', JNum 1), (''b'', JNum 2)]" "[[(''a'', JNum 3), (''b'', JNum 4)]]"
      "''robot-1''" robot_configured "''sheet-1''"]
  by (simp add: example_defs gs_field_def truthy_def Object_keys_def Object_values_def)

text \<open>
  The claim as stated fails when a row lists its keys in another order than the first
  row: for \<^verbatim>\<open>[{a:1,b:2},{b:4,a:3}]\<close> the second row sent is \<^verbatim>\<open>[4,3]\<close> under the header
  \<^verbatim>\<open>["a","b"]\<close>, where the values in header key order are \<^verbatim>\<open>[3,4]\<close>.
\<close>

theorem rows_not_in_header_order:
  "append_requests (trace (snd (updateGoogleSheet ''robot-1'' ''run-1''
      (mk_world run_reordered robot_configured api_ok)))) =
   [(''sheet-1'', ''Sheet1!A1'', ''USER_ENTERED'',
     [[JStr ''a'', JStr ''b''], [JNum 1, JNum 2], [JNum 4, JNum 3]])] \<and>
   claimed_outputData [(''a'', JNum 1), (''b'', JNum 2)] [[(''b'', JNum 4), (''a'', JNum 3)]] =
     [[JStr ''a'', JStr ''b''], [JNum 1, JNum 2], [JNum 3, JNum 4]] \<and>
   append_requests (trace (snd (updateGoogleSheet ''robot-1'' ''run-1''
      (mk_world run_reordered robot_configured api_ok)))) \<noteq>
   [(''sheet-1'', ''Sheet1!A1'', ''USER_ENTERED'',
     claimed_outputData [(''a'', JNum 1), (''b'', JNum 2)] [[(''b'', JNum 4), (''a'', JNum 3)]])]"
  by (simp add: io_defs gsheet_defs example_defs Let_def claimed_outputData_def values_by_header_def)

text \<open>
  Claim C10. For a successful run with no \<^verbatim>\<open>serializableOutput\<close> entries and a
  \<^verbatim>\<open>binaryOutput["item-0"]\<close> URL, and a robot with an email, a sheet id and both tokens,
  the rows of the append call are the header \<^verbatim>\<open>["Screenshot URL"]\<close> and one row with the
  URL; for \<^verbatim>\<open>"https://x/y.png"\<close> they are \<^verbatim>\<open>[["Screenshot URL"],["https://x/y.png"]]\<close>.
\<close>

theorem screenshot_rows:
  assumes "Run_store w runId = Inr (Some plainRun)" and "run_status plainRun = ''success''"
    and "serializableOutput plainRun = None \<or> serializableOutput plainRun = Some []"
    and "binaryOutput plainRun = Some bo" and "map_of bo ''item-0'' = Some url" and "url \<noteq> []"
    and "Robot_store w robotId = Inr (Some r)"
    and "truthy (gs_field gs_email r)" and "gs_field gs_sheet_id r = Some sid" and "sid \<noteq> []"
    and "truthy (gs_field gs_access_token r)" and "truthy (gs_field gs_refresh_token r)"
  shows "append_requests (trace (snd (updateGoogleSheet robotId runId w))) =
           append_requests (trace w) @
           [(sid, ''Sheet1!A1'', ''USER_ENTERED'', [[JStr ''Screenshot URL''], [JStr url]])]"
proof -
  from assms(3,4,5,6) have "select_data plainRun = Some [[(''Screenshot URL'', JStr url)]]"
    by (auto simp add: select_data_def binary_data_def truthy_def)
  then have "build_outputData (select_data plainRun) =
        Inr [[JStr ''Screenshot URL''], [JStr url]]"
    by (simp add: build_outputData_def Object_keys_def Object_values_def)
  from updateGoogleSheet_requests[OF assms(1,2,7,8,9,10,11,12) this] show ?thesis .
qed

theorem screenshot_rows_witness:
  "append_requests (trace (snd (updateGoogleSheet ''robot-1'' ''run-1''
      (mk_world run_screenshot robot_configured api_ok)))) =
   [(''sheet-1'', ''Sheet1!A1'', ''USER_ENTERED'',
     [[JStr ''Screenshot URL''], [JStr ''https://x/y.png'']])]"
  using screenshot_rows[of "mk_world run_screenshot robot_configured api_ok" "''run-1''" run_screenshot
      "[(''item-0'', ''https://x/y.png'')]" "''https://x/y.png''"
      "''robot-1''" robot_configured "''sheet-1''"]
  by (simp add: example_defs gs_field_def truthy_def)

section \<open>A robot without a configured sheet\<close>

text \<open>
  Claim C8. For a robot whose \<^verbatim>\<open>google_sheets\<close> integration lacks \<^verbatim>\<open>sheet_id\<close> or
  lacks \<^verbatim>\<open>email\<close>, \<^verbatim>\<open>updateGoogleSheet\<close> returns normally, makes no append call and
  writes exactly one line to the console; when the run is found and successful, that line
  is \<^verbatim>\<open>Google Sheets integration not configured.\<close>
\<close>

theorem unconfigured_robot_no_append:
  assumes "Robot_store w robotId = Inr (Some r)"
    and "\<not> truthy (gs_field gs_email r) \<or> \<not> truthy (gs_field gs_sheet_id r)"
  shows "fst (updateGoogleSheet robotId runId w) = Inr () \<and>
         append_requests (trace (snd (updateGoogleSheet robotId runId w))) =
           append_requests (trace w) \<and>
         (\<exists>m. trace (snd (updateGoogleSheet robotId runId w)) = trace w @ [ConsoleLog m] \<or>
              trace (snd (updateGoogleSheet robotId runId w)) = trace w @ [ConsoleError m]) \<and>
         (\<forall>plainRun. Run_store w runId = Inr (Some plainRun) \<and> run_status plainRun = ''success'' \<longrightarrow>
            trace (snd (updateGoogleSheet robotId runId w)) =
              trace w @ [ConsoleLog ''Google Sheets integration not configured.''])"
proof (cases "Run_store w runId")
  case (Inl e)
  then show ?thesis by (simp add: updateGoogleSheet_def updateGoogleSheet_try_def io_defs)
next
  case (Inr found)
  show ?thesis
  proof (cases found)
    case None
    with Inr show ?thesis by (simp add: updateGoogleSheet_def updateGoogleSheet_try_def io_defs)
  next
    case (Some plainRun)
    with Inr assms show ?thesis
      by (auto simp add: updateGoogleSheet_def updateGoogleSheet_try_def io_defs)
  qed
qed

theorem unconfigured_robot_no_append_witness:
  "fst (updateGoogleSheet ''robot-1'' ''run-1'' (mk_world run_structured robot_no_sheet api_ok)) = Inr () \<and>
   trace (snd (updateGoogleSheet ''robot-1'' ''run-1'' (mk_world run_structured robot_no_sheet api_ok))) =
     [ConsoleLog ''Google Sheets integration not configured.'']"
  using unconfigured_robot_no_append[of "mk_world run_structured robot_no_sheet api_ok" "''robot-1''" robot_no_sheet "''run-1''"]
  by (simp add: example_defs gs_field_def truthy_def)

section \<open>Token refresh\<close>

lemma merge_tokens_others:
  "int_others (merge_tokens t ri) = (case ri of None \<Rightarrow> [] | Some i \<Rightarrow> int_others i)"
  by (cases ri) (simp_all add: merge_tokens_def Let_def)

lemma gs_field_gs_of:
  "f \<lparr>gs_email = None, gs_sheet_id = None, gs_sheet_name = None,
      gs_access_token = None, gs_refresh_token = None\<rparr> = None \<Longrightarrow>
   gs_field f r = f (gs_of (robot_integrations r))"
  by (simp add: gs_field_def gs_of_def split: option.splits)

lemma merge_tokens_gs:
  "int_google_sheets (merge_tokens t ri) =
     Some ((gs_of ri)
       \<lparr>gs_access_token := (if truthy (tok_access_token t) then tok_access_token t
                            else gs_access_token (gs_of ri)),
        gs_refresh_token := (if truthy (tok_refresh_token t) then tok_refresh_token t
                             else gs_refresh_token (gs_of ri))\<rparr>)"
proof (cases ri)
  case None
  then show ?thesis by (simp add: merge_tokens_def gs_of_def Let_def)
next
  case (Some i)
  then show ?thesis
    by (cases "int_google_sheets i") (simp_all add: merge_tokens_def gs_of_def Let_def)
qed

text \<open>The record the listener hands to \<^verbatim>\<open>update\<close>, and so the instance afterwards.\<close>

lemma on_tokens_instance:
  "fst (on_tokens robotId r t w) =
     r\<lparr>robot_integrations := Some (merge_tokens t (robot_integrations r))\<rparr>"
  by (simp add: on_tokens_def robot_update_def Let_def)

lemma listener_value_frame:
  "gs_field gs_refresh_token (fst (on_tokens robotId r t w)) =
     (if truthy (tok_refresh_token t) then tok_refresh_token t
      else gs_field gs_refresh_token r) \<and>
   gs_field gs_access_token (fst (on_tokens robotId r t w)) =
     (if truthy (tok_access_token t) then tok_access_token t
      else gs_field gs_access_token r) \<and>
   gs_field gs_sheet_id (fst (on_tokens robotId r t w)) = gs_field gs_sheet_id r \<and>
   gs_field gs_email (fst (on_tokens robotId r t w)) = gs_field gs_email r \<and>
   gs_field gs_sheet_name (fst (on_tokens robotId r t w)) = gs_field gs_sheet_name r \<and>
   other_integrations (fst (on_tokens robotId r t w)) = other_integrations r"
proof -
  let ?r' = "fst (on_tokens robotId r t w)"
  have g: "\<And>f. gs_field f ?r' =
      f ((gs_of (robot_integrations r))
       \<lparr>gs_access_token := (if truthy (tok_access_token t) then tok_access_token t
                            else gs_access_token (gs_of (robot_integrations r))),
        gs_refresh_token := (if truthy (tok_refresh_token t) then tok_refresh_token t
                             else gs_refresh_token (gs_of (robot_integrations r)))\<rparr>)"
    by (simp add: on_tokens_instance gs_field_def merge_tokens_gs)
  have 2: "gs_field gs_refresh_token ?r' =
           (if truthy (tok_refresh_token t) then tok_refresh_token t
            else gs_field gs_refresh_token r)"
    by (simp add: g gs_field_gs_of)
  have 3: "gs_field gs_access_token ?r' =
           (if truthy (tok_access_token t) then tok_access_token t
            else gs_field gs_access_token r)"
    by (simp add: g gs_field_gs_of)
  have 4: "gs_field gs_sheet_id ?r' = gs_field gs_sheet_id r" by (simp add: g gs_field_gs_of)
  have 5: "gs_field gs_email ?r' = gs_field gs_email r" by (simp add: g gs_field_gs_of)
  have 6: "gs_field gs_sheet_name ?r' = gs_field gs_sheet_name r" by (simp add: g gs_field_gs_of)
  have 7: "other_integrations ?r' = other_integrations r"
    by (simp add: on_tokens_instance other_integrations_def merge_tokens_others)
  from 2 3 4 5 6 7 show ?thesis by blast
qed

text \<open>
  When the instance has a \<^verbatim>\<open>google_sheets\<close> object, the tokens were written into it, and
  the value passed to \<^verbatim>\<open>update\<close> is the value the instance holds already.
\<close>

lemma written_in_place_shared:
  "has_google_sheets r \<Longrightarrow>
   written_in_place t (robot_integrations r) = Some (merge_tokens t (robot_integrations r))"
  by (auto simp add: has_google_sheets_def written_in_place_def split: option.splits)

lemma has_google_sheets_on_tokens: "has_google_sheets (fst (on_tokens robotId r t w))"
  by (simp add: on_tokens_instance has_google_sheets_def merge_tokens_gs)

lemma truthy_has_google_sheets: "truthy (gs_field f r) \<Longrightarrow> has_google_sheets r"
  by (auto simp add: truthy_def gs_field_def has_google_sheets_def split: option.splits)

text \<open>An update that writes stores the record with the merged tokens.\<close>

lemma on_tokens_written:
  "Robot_update_writes w
     (r\<lparr>robot_integrations := written_in_place t (robot_integrations r)\<rparr>)
     (merge_tokens t (robot_integrations r)) \<Longrightarrow>
   Robot_store (snd (on_tokens robotId r t w)) robotId =
     Inr (Some (fst (on_tokens robotId r t w)))"
  by (simp add: on_tokens_def robot_update_def Let_def)

text \<open>
  An update with change detection writes nothing for an instance that has a
  \<^verbatim>\<open>google_sheets\<close> object, whatever the events carry.
\<close>

lemma on_tokens_not_written:
  assumes "\<forall>r i. robot_integrations r = Some i \<longrightarrow> \<not> Robot_update_writes w r i"
    and "has_google_sheets r"
  shows "snd (on_tokens robotId r t w) = w"
  using assms written_in_place_shared[OF assms(2), of t]
  by (simp add: on_tokens_def robot_update_def Let_def)

lemma emit_tokens_not_written:
  "\<forall>r i. robot_integrations r = Some i \<longrightarrow> \<not> Robot_update_writes w r i \<Longrightarrow>
   has_google_sheets r \<Longrightarrow> snd (emit_tokens robotId r ts w) = w"
proof (induction ts arbitrary: r)
  case Nil
  show ?case by simp
next
  case (Cons t ts)
  have w: "snd (on_tokens robotId r t w) = w"
    by (rule on_tokens_not_written[OF Cons.prems])
  have h: "has_google_sheets (fst (on_tokens robotId r t w))"
    by (rule has_google_sheets_on_tokens)
  from Cons.IH[OF Cons.prems(1) h] w show ?case
    by (simp add: case_prod_beta)
qed

lemma spreadsheets_values_append_store:
  assumes "\<forall>r i. robot_integrations r = Some i \<longrightarrow> \<not> Robot_update_writes w r i"
    and "has_google_sheets r"
  shows "Robot_store (snd (spreadsheets_values_append robotId r sid rng opt vals w)) =
         Robot_store w"
proof -
  let ?w1 = "record_event (SheetsAppend sid rng opt vals)
               (w\<lparr>append_calls := Suc (append_calls w)\<rparr>)"
  have cd: "\<forall>r i. robot_integrations r = Some i \<longrightarrow> \<not> Robot_update_writes ?w1 r i"
    using assms(1) by (simp add: record_event_def)
  have "snd (emit_tokens robotId r (tokens_events (sheets_api w (append_calls w) sid vals)) ?w1) =
        ?w1"
    by (rule emit_tokens_not_written[OF cd assms(2)])
  then have "snd (spreadsheets_values_append robotId r sid rng opt vals w) = ?w1"
    by (simp add: spreadsheets_values_append_def Let_def)
  then show ?thesis by (simp add: record_event_def)
qed

lemma writeDataToSheet_store_unchanged:
  assumes "\<forall>r i. robot_integrations r = Some i \<longrightarrow> \<not> Robot_update_writes w r i"
    and "Robot_store w robotId = Inr (Some r)"
    and "truthy (gs_field gs_access_token r)" and "truthy (gs_field gs_refresh_token r)"
  shows "Robot_store (snd (writeDataToSheet robotId sid vals w)) = Robot_store w"
proof -
  let ?w0 = "record_event (ConsoleLog (''Attempting to write to spreadsheet: '' @ sid)) w"
  let ?ap = "spreadsheets_values_append robotId r sid ''Sheet1!A1'' ''USER_ENTERED'' vals ?w0"
  have cd: "\<forall>r i. robot_integrations r = Some i \<longrightarrow> \<not> Robot_update_writes ?w0 r i"
    using assms(1) by (simp add: record_event_def)
  have h: "has_google_sheets r" using assms(3) by (rule truthy_has_google_sheets)
  have "Robot_store (snd ?ap) = Robot_store ?w0"
    by (rule spreadsheets_values_append_store[OF cd h])
  then have st: "Robot_store (snd ?ap) = Robot_store w" by (simp add: record_event_def)
  obtain res w2 where ap: "?ap = (res, w2)" by (cases ?ap) auto
  with st have "Robot_store w2 = Robot_store w" by simp
  with assms ap show ?thesis
    by (cases res) (simp_all add: writeDataToSheet_def writeDataToSheet_try_def io_defs)
qed

text \<open>
  Claim C7. The claim wants the stored integration record to hold the new tokens after
  a refresh event. The code does not get there: for a robot with an email, a sheet id
  and both tokens, and an append call during which the client emits two \<^verbatim>\<open>tokens\<close>
  events (new access and refresh tokens, then a newer access token), the listener has
  written the tokens into the instance's own \<^verbatim>\<open>google_sheets\<close> object through its shallow copy, so
  \<^verbatim>\<open>robot.update\<close> is called with the value the instance holds already; an update with
  change detection writes nothing, and the stored record keeps the old tokens.
\<close>

theorem refreshed_tokens_are_not_persisted:
  "tokens_events (api_refresh 0 ''sheet-1'' [[JStr ''a''], [JNum 1]]) =
     [\<lparr>tok_access_token = Some ''at-1'', tok_refresh_token = Some ''rt-1''\<rparr>,
      \<lparr>tok_access_token = Some ''at-2'', tok_refresh_token = None\<rparr>] \<and>
   fst (writeDataToSheet ''robot-1'' ''sheet-1'' [[JStr ''a''], [JNum 1]]
          (mk_world run_structured robot_configured api_refresh)) = Inr () \<and>
   append_requests (trace (snd (writeDataToSheet ''robot-1'' ''sheet-1'' [[JStr ''a''], [JNum 1]]
          (mk_world run_structured robot_configured api_refresh)))) =
     [(''sheet-1'', ''Sheet1!A1'', ''USER_ENTERED'', [[JStr ''a''], [JNum 1]])] \<and>
   Robot_store (snd (writeDataToSheet ''robot-1'' ''sheet-1'' [[JStr ''a''], [JNum 1]]
          (mk_world run_structured robot_configured api_refresh))) ''robot-1'' =
     Inr (Some robot_configured) \<and>
   gs_field gs_refresh_token robot_configured = Some ''rt-0'' \<and>
   gs_field gs_access_token robot_configured = Some ''at-0''"
  by (simp add: io_defs gsheet_defs example_defs Let_def on_tokens_def robot_update_def
      merge_tokens_def written_in_place_def)

text \<open>
  With an update that writes whatever it is given, the same call stores the new tokens
  and keeps the sheet id, the email, the sheet name and the other integrations.
\<close>

lemma refreshed_tokens_persisted_by_unconditional_update:
  "Robot_store (snd (writeDataToSheet ''robot-1'' ''sheet-1'' [[JStr ''a''], [JNum 1]]
      ((mk_world run_structured robot_configured api_refresh)
         \<lparr>Robot_update_writes := writes_always\<rparr>))) ''robot-1'' =
     Inr (Some
       \<lparr>recording_meta_id = ''robot-1'',
        robot_integrations = Some
          \<lparr>int_google_sheets = Some
             \<lparr>gs_email = Some ''user@example.com'', gs_sheet_id = Some ''sheet-1'',
              gs_sheet_name = Some ''Results'', gs_access_token = Some ''at-2'',
              gs_refresh_token = Some ''rt-1''\<rparr>,
           int_others = [(''airtable'', JStr ''base-1'')]\<rparr>\<rparr>)"
  by (simp add: io_defs gsheet_defs example_defs Let_def on_tokens_def robot_update_def
      merge_tokens_def written_in_place_def)

section \<open>The registry under one step of the processor\<close>

lemma map_of_reg_delete:
  "map_of (reg_delete k tasks) k' = (if k' = k then None else map_of tasks k')"
  by (induction tasks) (auto simp: reg_delete_def)

lemma map_of_reg_modify:
  "map_of (reg_modify f k tasks) k' =
     (if k' = k then map_option f (map_of tasks k) else map_of tasks k')"
  by (induction tasks) auto

lemma keys_reg_modify: "map fst (reg_modify f k tasks) = map fst tasks"
  by (induction tasks) auto

lemma set_reg_delete: "set (reg_delete k tasks) \<subseteq> set tasks"
  by (auto simp: reg_delete_def)

lemma set_reg_modify:
  "map_of tasks k = Some t \<Longrightarrow> set (reg_modify f k tasks) \<subseteq> insert (k, f t) (set tasks)"
  by (induction tasks) (auto split: if_splits)

lemma distinct_reg_delete: "distinct (map fst tasks) \<Longrightarrow> distinct (map fst (reg_delete k tasks))"
  by (simp add: reg_delete_def distinct_map_filter)

lemma process_entry_absent:
  "map_of tasks k = None \<Longrightarrow> process_entry attempt k (tasks, w, b) = (tasks, w, b)"
  by (simp add: process_entry_def)

lemma process_entry_not_pending:
  "map_of tasks k = Some t \<Longrightarrow> task_status t \<noteq> pending \<Longrightarrow>
   process_entry attempt k (tasks, w, b) = (tasks, record_event (processing_line k t) w, b)"
  by (simp add: process_entry_def processing_line_def)

lemma process_entry_success:
  "map_of tasks k = Some t \<Longrightarrow> task_status t = pending \<Longrightarrow>
   attempt (task_robotId t) (task_runId t) (record_event (processing_line k t) w) = (Inr u, w2) \<Longrightarrow>
   process_entry attempt k (tasks, w, b) =
     (reg_delete k tasks,
      record_event (ConsoleLog (''Successfully updated Google Sheet for runId: '' @ k)) w2,
      True)"
  by (simp add: process_entry_def processing_line_def)

lemma process_entry_retry:
  "map_of tasks k = Some t \<Longrightarrow> task_status t = pending \<Longrightarrow>
   attempt (task_robotId t) (task_runId t) (record_event (processing_line k t) w) = (Inl e, w2) \<Longrightarrow>
   task_retries t < MAX_RETRIES \<Longrightarrow>
   process_entry attempt k (tasks, w, b) =
     (reg_modify (\<lambda>t. t\<lparr>task_retries := task_retries t + 1\<rparr>) k tasks,
      record_event (ConsoleLog (''Retrying task for runId: '' @ k @ '', attempt: ''
                                 @ show_int (task_retries t + 1)))
        (record_event (ConsoleError (''Failed to update Google Sheets for run '' @ task_runId t
                                     @ '': '' @ message e)) w2),
      True)"
  by (simp add: process_entry_def processing_line_def Let_def)

lemma process_entry_exhausted:
  "map_of tasks k = Some t \<Longrightarrow> task_status t = pending \<Longrightarrow>
   attempt (task_robotId t) (task_runId t) (record_event (processing_line k t) w) = (Inl e, w2) \<Longrightarrow>
   \<not> task_retries t < MAX_RETRIES \<Longrightarrow>
   process_entry attempt k (tasks, w, b) =
     (reg_modify (\<lambda>t. t\<lparr>task_status := failed\<rparr>) k tasks,
      record_event (ConsoleLog (''Max retries reached for runId: '' @ k
                                 @ ''. Marking task as failed.''))
        (record_event (ConsoleError (''Failed to update Google Sheets for run '' @ task_runId t
                                     @ '': '' @ message e)) w2),
      True)"
  by (simp add: process_entry_def processing_line_def Let_def)

lemma process_entry_registry:
  obtains
    (absent) "map_of tasks k = None" "fst (process_entry attempt k (tasks, w, b)) = tasks"
  | (idle) t where "map_of tasks k = Some t" "task_status t \<noteq> pending"
      "fst (process_entry attempt k (tasks, w, b)) = tasks"
  | (success) t where "map_of tasks k = Some t" "task_status t = pending"
      "fst (process_entry attempt k (tasks, w, b)) = reg_delete k tasks"
  | (retry) t where "map_of tasks k = Some t" "task_status t = pending"
      "task_retries t < MAX_RETRIES"
      "fst (process_entry attempt k (tasks, w, b)) =
         reg_modify (\<lambda>t. t\<lparr>task_retries := task_retries t + 1\<rparr>) k tasks"
  | (exhausted) t where "map_of tasks k = Some t" "task_status t = pending"
      "\<not> task_retries t < MAX_RETRIES"
      "fst (process_entry attempt k (tasks, w, b)) =
         reg_modify (\<lambda>t. t\<lparr>task_status := failed\<rparr>) k tasks"
proof (cases "map_of tasks k")
  case None
  then show ?thesis using absent by (simp add: process_entry_absent)
next
  case (Some t)
  show ?thesis
  proof (cases "task_status t = pending")
    case False
    with Some show ?thesis using idle by (simp add: process_entry_not_pending)
  next
    case True
    obtain res w2 where
      at: "attempt (task_robotId t) (task_runId t) (record_event (processing_line k t) w) = (res, w2)"
      by (cases "attempt (task_robotId t) (task_runId t) (record_event (processing_line k t) w)") auto
    show ?thesis
    proof (cases res)
      case (Inr u)
      with Some True at show ?thesis using success by (simp add: process_entry_success)
    next
      case (Inl e)
      show ?thesis
      proof (cases "task_retries t < MAX_RETRIES")
        case True
        with Some \<open>task_status t = pending\<close> at Inl show ?thesis
          using retry by (simp add: process_entry_retry)
      next
        case False
        with Some \<open>task_status t = pending\<close> at Inl show ?thesis
          using exhausted by (simp add: process_entry_exhausted)
      qed
    qed
  qed
qed

lemma process_entry_flag_eq:
  "snd (snd (process_entry attempt k (tasks, w, b))) =
     (b \<or> (\<exists>t. map_of tasks k = Some t \<and> task_status t = pending))"
proof (cases "map_of tasks k")
  case None
  then show ?thesis by (simp add: process_entry_absent)
next
  case (Some t)
  show ?thesis
  proof (cases "task_status t = pending")
    case False
    with Some show ?thesis by (simp add: process_entry_not_pending)
  next
    case True
    with Some show ?thesis
      by (simp add: process_entry_def Let_def split: prod.splits sum.splits)
  qed
qed

text \<open>A step leaves every other key alone.\<close>

lemma process_entry_other_keys:
  "k' \<noteq> k \<Longrightarrow> map_of (fst (process_entry attempt k (tasks, w, b))) k' = map_of tasks k'"
  by (cases rule: process_entry_registry[of tasks k attempt w b])
     (simp_all add: map_of_reg_delete map_of_reg_modify)

lemma process_entry_idle_keeps:
  "map_of tasks k' = Some t \<Longrightarrow> task_status t \<noteq> pending \<Longrightarrow>
   map_of (fst (process_entry attempt k (tasks, w, b))) k' = Some t"
proof (cases "k' = k")
  case False
  assume "map_of tasks k' = Some t"
  with False show ?thesis by (simp add: process_entry_other_keys)
next
  case True
  assume "map_of tasks k' = Some t" "task_status t \<noteq> pending"
  with True show ?thesis by (simp add: process_entry_not_pending)
qed

lemma process_entry_pending_was_pending:
  assumes "map_of (fst (process_entry attempt k (tasks, w, b))) k' = Some t'"
    and "task_status t' = pending"
  shows "\<exists>t. map_of tasks k' = Some t \<and> task_status t = pending"
proof (cases "k' = k")
  case False
  with assms show ?thesis by (simp add: process_entry_other_keys)
next
  case True
  show ?thesis
    using assms True
    by (cases rule: process_entry_registry[of tasks k attempt w b])
       (auto simp add: map_of_reg_delete map_of_reg_modify)
qed

lemma process_entry_retries_bound:
  assumes "\<forall>kv \<in> set tasks. task_retries (snd kv) \<le> MAX_RETRIES"
  shows "\<forall>kv \<in> set (fst (process_entry attempt k (tasks, w, b))). task_retries (snd kv) \<le> MAX_RETRIES"
proof (cases rule: process_entry_registry[of tasks k attempt w b])
  case absent
  with assms show ?thesis by simp
next
  case (idle t)
  with assms show ?thesis by simp
next
  case (success t)
  with assms set_reg_delete[of k tasks] show ?thesis by auto
next
  case (retry t)
  from set_reg_modify[OF retry(1), of "\<lambda>t. t\<lparr>task_retries := task_retries t + 1\<rparr>"]
  show ?thesis using assms retry(3,4) by auto
next
  case (exhausted t)
  from exhausted(1) have "(k, t) \<in> set tasks" by (rule map_of_SomeD)
  with assms have "task_retries t \<le> MAX_RETRIES" by auto
  with set_reg_modify[OF exhausted(1), of "\<lambda>t. t\<lparr>task_status := failed\<rparr>"]
  show ?thesis using assms exhausted(4) by auto
qed

lemma process_entry_no_completed:
  assumes "\<forall>kv \<in> set tasks. task_status (snd kv) \<noteq> completed"
  shows "\<forall>kv \<in> set (fst (process_entry attempt k (tasks, w, b))). task_status (snd kv) \<noteq> completed"
proof (cases rule: process_entry_registry[of tasks k attempt w b])
  case absent
  with assms show ?thesis by simp
next
  case (idle t)
  with assms show ?thesis by simp
next
  case (success t)
  with assms set_reg_delete[of k tasks] show ?thesis by auto
next
  case (retry t)
  from set_reg_modify[OF retry(1), of "\<lambda>t. t\<lparr>task_retries := task_retries t + 1\<rparr>"]
  show ?thesis using assms retry(2,4) by auto
next
  case (exhausted t)
  from set_reg_modify[OF exhausted(1), of "\<lambda>t. t\<lparr>task_status := failed\<rparr>"]
  show ?thesis using assms exhausted(4) by auto
qed

lemma process_entry_distinct:
  assumes "distinct (map fst tasks)"
  shows "distinct (map fst (fst (process_entry attempt k (tasks, w, b))))"
  by (cases rule: process_entry_registry[of tasks k attempt w b])
     (use assms in \<open>simp_all add: distinct_reg_delete keys_reg_modify\<close>)

text \<open>The same for a pass over any sequence of keys.\<close>

lemma scan_retries_bound:
  "\<forall>kv \<in> set tasks. task_retries (snd kv) \<le> MAX_RETRIES \<Longrightarrow>
   \<forall>kv \<in> set (fst (scan attempt ks (tasks, w, b))). task_retries (snd kv) \<le> MAX_RETRIES"
proof (induction ks arbitrary: tasks w b)
  case Nil
  then show ?case by simp
next
  case (Cons k ks)
  obtain t1 w1 b1 where pe: "process_entry attempt k (tasks, w, b) = (t1, w1, b1)"
    by (cases "process_entry attempt k (tasks, w, b)") auto
  from process_entry_retries_bound[OF Cons.prems, of attempt k w b] pe
  have "\<forall>kv \<in> set t1. task_retries (snd kv) \<le> MAX_RETRIES" by simp
  from Cons.IH[OF this, of w1 b1] pe show ?case by simp
qed

lemma scan_no_completed:
  "\<forall>kv \<in> set tasks. task_status (snd kv) \<noteq> completed \<Longrightarrow>
   \<forall>kv \<in> set (fst (scan attempt ks (tasks, w, b))). task_status (snd kv) \<noteq> completed"
proof (induction ks arbitrary: tasks w b)
  case Nil
  then show ?case by simp
next
  case (Cons k ks)
  obtain t1 w1 b1 where pe: "process_entry attempt k (tasks, w, b) = (t1, w1, b1)"
    by (cases "process_entry attempt k (tasks, w, b)") auto
  from process_entry_no_completed[OF Cons.prems, of attempt k w b] pe
  have "\<forall>kv \<in> set t1. task_status (snd kv) \<noteq> completed" by simp
  from Cons.IH[OF this, of w1 b1] pe show ?case by simp
qed

lemma scan_distinct:
  "distinct (map fst tasks) \<Longrightarrow> distinct (map fst (fst (scan attempt ks (tasks, w, b))))"
proof (induction ks arbitrary: tasks w b)
  case Nil
  then show ?case by simp
next
  case (Cons k ks)
  obtain t1 w1 b1 where pe: "process_entry attempt k (tasks, w, b) = (t1, w1, b1)"
    by (cases "process_entry attempt k (tasks, w, b)") auto
  from process_entry_distinct[OF Cons.prems, of attempt k w b] pe
  have "distinct (map fst t1)" by simp
  from Cons.IH[OF this, of w1 b1] pe show ?case by simp
qed

lemma scan_idle_keeps:
  "map_of tasks k' = Some t \<Longrightarrow> task_status t \<noteq> pending \<Longrightarrow>
   map_of (fst (scan attempt ks (tasks, w, b))) k' = Some t"
proof (induction ks arbitrary: tasks w b)
  case Nil
  then show ?case by simp
next
  case (Cons k ks)
  obtain t1 w1 b1 where pe: "process_entry attempt k (tasks, w, b) = (t1, w1, b1)"
    by (cases "process_entry attempt k (tasks, w, b)") auto
  from process_entry_idle_keeps[OF Cons.prems, of attempt k w b] pe
  have "map_of t1 k' = Some t" by simp
  from Cons.IH[OF this Cons.prems(2), of w1 b1] pe show ?case by simp
qed

text \<open>The flag after a pass: set before, or some key of the pass had a pending task.\<close>

lemma scan_flag:
  "snd (snd (scan attempt ks (tasks, w, b))) =
     (b \<or> (\<exists>k \<in> set ks. \<exists>t. map_of tasks k = Some t \<and> task_status t = pending))"
proof (induction ks arbitrary: tasks w b)
  case Nil
  show ?case by simp
next
  case (Cons k ks)
  obtain t1 w1 b1 where pe: "process_entry attempt k (tasks, w, b) = (t1, w1, b1)"
    by (cases "process_entry attempt k (tasks, w, b)") auto
  have b1: "b1 = (b \<or> (\<exists>t. map_of tasks k = Some t \<and> task_status t = pending))"
    using process_entry_flag_eq[of attempt k tasks w b] pe by simp
  have t1: "t1 = fst (process_entry attempt k (tasks, w, b))" using pe by simp
  have later: "(\<exists>t. map_of t1 k' = Some t \<and> task_status t = pending) \<longrightarrow>
               (\<exists>t. map_of tasks k' = Some t \<and> task_status t = pending)" for k'
    using process_entry_pending_was_pending[of attempt k tasks w b k'] t1 by blast
  have earlier: "k' \<noteq> k \<Longrightarrow> map_of t1 k' = map_of tasks k'" for k'
    using process_entry_other_keys[of k' k attempt tasks w b] t1 by simp
  have "snd (snd (scan attempt (k # ks) (tasks, w, b))) =
        (b1 \<or> (\<exists>k' \<in> set ks. \<exists>t. map_of t1 k' = Some t \<and> task_status t = pending))"
    using Cons.IH[of t1 w1 b1] pe by simp
  also have "\<dots> = (b \<or> (\<exists>k' \<in> set (k # ks). \<exists>t. map_of tasks k' = Some t \<and> task_status t = pending))"
    using b1 later earlier by (metis list.set_intros(1) list.set_intros(2) set_ConsD)
  finally show ?case .
qed

text \<open>A pass over a registry without a pending task changes nothing but the console.\<close>

lemma timeouts_append [simp]: "timeouts (xs @ ys) = timeouts xs @ timeouts ys"
  by (induction xs rule: timeouts.induct) simp_all

lemma scan_idle:
  assumes "\<forall>k t. map_of tasks k = Some t \<longrightarrow> task_status t \<noteq> pending"
  shows "fst (scan attempt ks (tasks, w, b)) = tasks \<and>
         timeouts (trace (fst (snd (scan attempt ks (tasks, w, b))))) = timeouts (trace w) \<and>
         append_requests (trace (fst (snd (scan attempt ks (tasks, w, b))))) =
           append_requests (trace w)"
proof (induction ks arbitrary: w b)
  case Nil
  show ?case by simp
next
  case (Cons k ks)
  show ?case
  proof (cases "map_of tasks k")
    case None
    with Cons.IH[of w b] show ?thesis by (simp add: process_entry_absent)
  next
    case (Some t)
    with assms have "task_status t \<noteq> pending" by blast
    with Some Cons.IH[of "record_event (processing_line k t) w" b] show ?thesis
      by (simp add: process_entry_not_pending record_event_def processing_line_def)
  qed
qed

section \<open>The loop\<close>

lemma loop_exit:
  assumes "\<not> snd (snd (scan attempt (map fst tasks) (tasks, w, False)))"
  shows "processGoogleSheetUpdates_with attempt (tasks, w) =
     (fst (scan attempt (map fst tasks) (tasks, w, False)),
      record_event (ConsoleLog ''No pending tasks. Exiting loop.'')
        (fst (snd (scan attempt (map fst tasks) (tasks, w, False)))))"
proof -
  obtain tasks' w' hp where sc: "scan attempt (map fst tasks) (tasks, w, False) = (tasks', w', hp)"
    by (cases "scan attempt (map fst tasks) (tasks, w, False)") auto
  with assms have "\<not> hp" by simp
  with sc show ?thesis by (subst processGoogleSheetUpdates_with.simps) simp
qed

lemma loop_continue:
  assumes "snd (snd (scan attempt (map fst tasks) (tasks, w, False)))"
  shows "processGoogleSheetUpdates_with attempt (tasks, w) =
     processGoogleSheetUpdates_with attempt
       (fst (scan attempt (map fst tasks) (tasks, w, False)),
        record_event (SetTimeout 5000)
          (record_event (ConsoleLog ''Waiting for 5 seconds before checking again...'')
             (fst (snd (scan attempt (map fst tasks) (tasks, w, False))))))"
proof -
  obtain tasks' w' hp where sc: "scan attempt (map fst tasks) (tasks, w, False) = (tasks', w', hp)"
    by (cases "scan attempt (map fst tasks) (tasks, w, False)") auto
  with assms have "hp" by simp
  with sc show ?thesis by (subst processGoogleSheetUpdates_with.simps) simp
qed

lemma loop_invariant:
  "(\<And>tasks w. I tasks \<Longrightarrow> I (fst (scan attempt (map fst tasks) (tasks, w, False)))) \<Longrightarrow>
   I (fst s) \<Longrightarrow> I (fst (processGoogleSheetUpdates_with attempt s))"
proof (induction attempt s rule: processGoogleSheetUpdates_with.induct)
  case (1 attempt tasks w)
  let ?sc = "scan attempt (map fst tasks) (tasks, w, False)"
  note step = "1.prems"(1)
  from "1.prems"(2) have I1: "I (fst ?sc)" using step[of tasks w] by simp
  show ?case
  proof (cases "snd (snd ?sc)")
    case False
    with I1 show ?thesis by (simp add: loop_exit)
  next
    case True
    obtain tasks' w' hp where sc: "?sc = (tasks', w', hp)" by (cases ?sc) auto
    with True have hp: "hp" by simp
    from I1 sc have I2: "I tasks'" by simp
    have "I (fst (processGoogleSheetUpdates_with attempt
            (tasks', record_event (SetTimeout 5000)
               (record_event (ConsoleLog ''Waiting for 5 seconds before checking again...'') w'))))"
    proof (rule "1.IH"[OF sc[symmetric] refl])
      show "\<not> \<not> hp" using hp by simp
      show "\<And>tasks w. I tasks \<Longrightarrow> I (fst (scan attempt (map fst tasks) (tasks, w, False)))"
        by (rule step)
      show "I (fst (tasks', record_event (SetTimeout 5000)
               (record_event (ConsoleLog ''Waiting for 5 seconds before checking again...'') w')))"
        using I2 by simp
    qed
    with True sc show ?thesis by (simp add: loop_continue)
  qed
qed

text \<open>When the loop returns, no task is pending.\<close>

lemma no_pending_keys:
  assumes "\<not> snd (snd (scan attempt (map fst tasks) (tasks, w, False)))"
  shows "\<forall>k t. map_of tasks k = Some t \<longrightarrow> task_status t \<noteq> pending"
proof (intro allI impI)
  fix k t assume m: "map_of tasks k = Some t"
  then have "(k, t) \<in> set tasks" by (rule map_of_SomeD)
  then have "k \<in> set (map fst tasks)" by force
  with assms m show "task_status t \<noteq> pending" by (auto simp add: scan_flag)
qed

lemma loop_drains:
  "\<forall>k t. map_of (fst (processGoogleSheetUpdates_with attempt s)) k = Some t \<longrightarrow>
          task_status t \<noteq> pending"
proof (induction attempt s rule: processGoogleSheetUpdates_with.induct)
  case (1 attempt tasks w)
  let ?sc = "scan attempt (map fst tasks) (tasks, w, False)"
  show ?case
  proof (cases "snd (snd ?sc)")
    case False
    from no_pending_keys[OF False]
    have np: "\<forall>k t. map_of tasks k = Some t \<longrightarrow> task_status t \<noteq> pending" .
    from scan_idle[OF np, of attempt "map fst tasks" w False] have "fst ?sc = tasks" by simp
    with False np show ?thesis by (simp add: loop_exit)
  next
    case True
    obtain tasks' w' hp where sc: "?sc = (tasks', w', hp)" by (cases ?sc) auto
    with True have hp: "\<not> \<not> hp" by simp
    from "1.IH"[OF sc[symmetric] refl hp] True sc show ?thesis
      by (simp add: loop_continue)
  qed
qed

lemma map_of_all_iff:
  "distinct (map fst tasks) \<Longrightarrow>
   (\<forall>k t. map_of tasks k = Some t \<longrightarrow> P t) = (\<forall>kv \<in> set tasks. P (snd kv))"
  by auto

section \<open>The processor's state machine\<close>

text \<open>
  Claim C2. One step of the processor on a key that holds a task: if the task is pending
  and the attempt returns, the entry is removed; if it is pending, the attempt throws and
  \<open>retries < 5\<close>, the entry stays with \<open>retries\<close> one higher and status pending; if it is
  pending, the attempt throws and \<open>retries \<ge> 5\<close>, the entry stays with status failed. A
  failed task is not attempted and not changed: the step only logs the line for it. No
  other key is touched. The attempt is any computation; with \<^verbatim>\<open>updateGoogleSheet\<close>,
  which never throws, only the first and the last case occur.
\<close>

theorem processor_state_machine:
  assumes "map_of tasks k = Some task"
  shows
    "(task_status task = pending \<and>
      fst (attempt (task_robotId task) (task_runId task)
             (record_event (processing_line k task) w)) = Inr () \<longrightarrow>
        map_of (fst (process_entry attempt k (tasks, w, b))) k = None) \<and>
     (task_status task = pending \<and>
      fst (attempt (task_robotId task) (task_runId task)
             (record_event (processing_line k task) w)) = Inl e \<and>
      task_retries task < 5 \<longrightarrow>
        map_of (fst (process_entry attempt k (tasks, w, b))) k =
          Some (task\<lparr>task_retries := task_retries task + 1\<rparr>) \<and>
        task_status (task\<lparr>task_retries := task_retries task + 1\<rparr>) = pending) \<and>
     (task_status task = pending \<and>
      fst (attempt (task_robotId task) (task_runId task)
             (record_event (processing_line k task) w)) = Inl e \<and>
      5 \<le> task_retries task \<longrightarrow>
        map_of (fst (process_entry attempt k (tasks, w, b))) k =
          Some (task\<lparr>task_status := failed\<rparr>)) \<and>
     (task_status task = failed \<longrightarrow>
        process_entry attempt k (tasks, w, b) =
          (tasks, record_event (processing_line k task) w, b)) \<and>
     (\<forall>k'. k' \<noteq> k \<longrightarrow>
        map_of (fst (process_entry attempt k (tasks, w, b))) k' = map_of tasks k')"
proof -
  let ?w1 = "record_event (processing_line k task) w"
  let ?at = "attempt (task_robotId task) (task_runId task) ?w1"
  have 1: "map_of (fst (process_entry attempt k (tasks, w, b))) k = None"
    if "task_status task = pending" and "fst ?at = Inr ()"
  proof -
    from that(2) have "?at = (Inr (), snd ?at)" by (metis prod.collapse)
    from process_entry_success[where attempt = attempt and w = w and b = b, OF assms that(1) this] show ?thesis
      by (simp add: map_of_reg_delete)
  qed
  have 2: "map_of (fst (process_entry attempt k (tasks, w, b))) k =
             Some (task\<lparr>task_retries := task_retries task + 1\<rparr>)"
    if "task_status task = pending" and "fst ?at = Inl e" and "task_retries task < 5"
  proof -
    from that(2) have a: "?at = (Inl e, snd ?at)" by (metis prod.collapse)
    from that(3) have "task_retries task < MAX_RETRIES" by (simp add: MAX_RETRIES_def)
    from process_entry_retry[where attempt = attempt and w = w and b = b, OF assms that(1) a this] assms show ?thesis
      by (simp add: map_of_reg_modify)
  qed
  have 3: "map_of (fst (process_entry attempt k (tasks, w, b))) k =
             Some (task\<lparr>task_status := failed\<rparr>)"
    if "task_status task = pending" and "fst ?at = Inl e" and "5 \<le> task_retries task"
  proof -
    from that(2) have a: "?at = (Inl e, snd ?at)" by (metis prod.collapse)
    from that(3) have "\<not> task_retries task < MAX_RETRIES" by (simp add: MAX_RETRIES_def)
    from process_entry_exhausted[where attempt = attempt and w = w and b = b, OF assms that(1) a this] assms show ?thesis
      by (simp add: map_of_reg_modify)
  qed
  have 4: "process_entry attempt k (tasks, w, b) = (tasks, ?w1, b)"
    if "task_status task = failed"
    using process_entry_not_pending[OF assms, of attempt w b] that by simp
  have 5: "\<forall>k'. k' \<noteq> k \<longrightarrow>
        map_of (fst (process_entry attempt k (tasks, w, b))) k' = map_of tasks k'"
    by (simp add: process_entry_other_keys)
  from 1 2 3 4 5 show ?thesis by simp
qed

theorem processor_state_machine_witness:
  "map_of [(''run-1'', task_1 0)] ''run-1'' = Some (task_1 0) \<and>
   map_of (fst (process_entry attempt_ok ''run-1''
      ([(''run-1'', task_1 0)], mk_world run_structured robot_configured api_ok, False))) ''run-1'' = None \<and>
   map_of (fst (process_entry attempt_fails ''run-1''
      ([(''run-1'', task_1 2)], mk_world run_structured robot_configured api_ok, False))) ''run-1'' =
     Some (task_1 3) \<and>
   map_of (fst (process_entry attempt_fails ''run-1''
      ([(''run-1'', task_1 5)], mk_world run_structured robot_configured api_ok, False))) ''run-1'' =
     Some ((task_1 5)\<lparr>task_status := failed\<rparr>) \<and>
   process_entry attempt_fails ''run-0''
      ([(''run-0'', task_failed), (''run-1'', task_1 0)],
       mk_world run_structured robot_configured api_ok, False) =
     ([(''run-0'', task_failed), (''run-1'', task_1 0)],
      record_event (ConsoleLog ''Processing task for runId: run-0, status: failed'')
        (mk_world run_structured robot_configured api_ok), False) \<and>
   map_of (fst (process_entry attempt_ok ''run-1''
      ([(''run-0'', task_failed), (''run-1'', task_1 0)],
       mk_world run_structured robot_configured api_ok, False))) ''run-0'' = Some task_failed"
  using
    processor_state_machine[of "[(''run-1'', task_1 0)]" "''run-1''" "task_1 0" attempt_ok
       "mk_world run_structured robot_configured api_ok" False "Error []"]
    processor_state_machine[of "[(''run-1'', task_1 2)]" "''run-1''" "task_1 2" attempt_fails
       "mk_world run_structured robot_configured api_ok" False "Error ''quota exceeded''"]
    processor_state_machine[of "[(''run-1'', task_1 5)]" "''run-1''" "task_1 5" attempt_fails
       "mk_world run_structured robot_configured api_ok" False "Error ''quota exceeded''"]
    processor_state_machine[of "[(''run-0'', task_failed), (''run-1'', task_1 0)]" "''run-0''" task_failed attempt_fails
       "mk_world run_structured robot_configured api_ok" False "Error []"]
    processor_state_machine[of "[(''run-0'', task_failed), (''run-1'', task_1 0)]" "''run-1''" "task_1 0" attempt_ok
       "mk_world run_structured robot_configured api_ok" False "Error []"]
  by (simp add: task_1_def task_failed_def attempt_ok_def attempt_fails_def processing_line_def
      io_return_def io_throw_def)

text \<open>
  Claim C4. Starting from a registry in which no task has more than 5 retries, after
  any sequence of processor steps (a pass over any keys, from any world, with any
  attempt) and when the loop returns, no task has more than 5 retries; and a task that
  is failed is still there, unchanged, and so still failed.
\<close>

theorem retries_bounded_failed_terminal:
  assumes "\<forall>kv \<in> set tasks. task_retries (snd kv) \<le> 5"
  shows
    "(\<forall>kv \<in> set (fst (scan attempt ks (tasks, w, b))). task_retries (snd kv) \<le> 5) \<and>
     (\<forall>kv \<in> set (fst (processGoogleSheetUpdates_with attempt (tasks, w))).
        task_retries (snd kv) \<le> 5) \<and>
     (\<forall>k t. map_of tasks k = Some t \<and> task_status t = failed \<longrightarrow>
        map_of (fst (scan attempt ks (tasks, w, b))) k = Some t \<and>
        map_of (fst (processGoogleSheetUpdates_with attempt (tasks, w))) k = Some t)"
proof -
  from assms have a: "\<forall>kv \<in> set tasks. task_retries (snd kv) \<le> MAX_RETRIES"
    by (simp add: MAX_RETRIES_def)
  have 1: "\<forall>kv \<in> set (fst (scan attempt ks (tasks, w, b))). task_retries (snd kv) \<le> 5"
    using scan_retries_bound[OF a, of attempt ks w b] by (simp add: MAX_RETRIES_def)
  have "\<forall>kv \<in> set (fst (processGoogleSheetUpdates_with attempt (tasks, w))).
          task_retries (snd kv) \<le> MAX_RETRIES"
    by (rule loop_invariant[where I = "\<lambda>ts. \<forall>kv \<in> set ts. task_retries (snd kv) \<le> MAX_RETRIES"])
       (use a in \<open>simp_all add: scan_retries_bound\<close>)
  then have 2: "\<forall>kv \<in> set (fst (processGoogleSheetUpdates_with attempt (tasks, w))).
          task_retries (snd kv) \<le> 5"
    by (simp add: MAX_RETRIES_def)
  have 3: "map_of (fst (scan attempt ks (tasks, w, b))) k = Some t \<and>
           map_of (fst (processGoogleSheetUpdates_with attempt (tasks, w))) k = Some t"
    if "map_of tasks k = Some t" and "task_status t = failed" for k t
  proof
    from that show "map_of (fst (scan attempt ks (tasks, w, b))) k = Some t"
      by (simp add: scan_idle_keeps)
    show "map_of (fst (processGoogleSheetUpdates_with attempt (tasks, w))) k = Some t"
      by (rule loop_invariant[where I = "\<lambda>ts. map_of ts k = Some t"])
         (use that in \<open>simp_all add: scan_idle_keeps\<close>)
  qed
  from 1 2 3 show ?thesis by blast
qed

theorem retries_bounded_failed_terminal_witness:
  "task_retries task_failed \<le> 5 \<and> task_retries (task_1 4) \<le> 5 \<and>
   map_of [(''run-0'', task_failed), (''run-1'', task_1 4)] ''run-0'' = Some task_failed \<and>
   task_status task_failed = failed \<and>
   fst (processGoogleSheetUpdates_with attempt_fails
        ([(''run-0'', task_failed), (''run-1'', task_1 4)],
         mk_world run_structured robot_configured api_ok)) =
     [(''run-0'', task_failed), (''run-1'', (task_1 5)\<lparr>task_status := failed\<rparr>)] \<and>
   list_all (\<lambda>kv. task_retries (snd kv) \<le> 5)
     (fst (processGoogleSheetUpdates_with attempt_fails
        ([(''run-0'', task_failed), (''run-1'', task_1 4)],
         mk_world run_structured robot_configured api_ok))) \<and>
   map_of (fst (processGoogleSheetUpdates_with attempt_fails
        ([(''run-0'', task_failed), (''run-1'', task_1 4)],
         mk_world run_structured robot_configured api_ok))) ''run-0'' = Some task_failed"
proof -
  let ?tasks = "[(''run-0'', task_failed), (''run-1'', task_1 4)]"
  let ?w = "mk_world run_structured robot_configured api_ok"
  have h: "\<forall>kv \<in> set ?tasks. task_retries (snd kv) \<le> 5"
    by (simp add: task_failed_def task_1_def)
  have m: "map_of ?tasks ''run-0'' = Some task_failed" and f: "task_status task_failed = failed"
    by (simp_all add: task_failed_def)
  have ev: "fst (processGoogleSheetUpdates_with attempt_fails (?tasks, ?w)) =
     [(''run-0'', task_failed), (''run-1'', (task_1 5)\<lparr>task_status := failed\<rparr>)]"
    by (simp add: loop_continue loop_exit process_entry_def task_1_def task_failed_def
        attempt_fails_def io_throw_def MAX_RETRIES_def Let_def record_event_def)
  from retries_bounded_failed_terminal[OF h, of attempt_fails "[]" ?w False] m f
  have b: "\<forall>kv \<in> set (fst (processGoogleSheetUpdates_with attempt_fails (?tasks, ?w))).
             task_retries (snd kv) \<le> 5"
    and k: "map_of (fst (processGoogleSheetUpdates_with attempt_fails (?tasks, ?w))) ''run-0'' =
             Some task_failed"
    by blast+
  from b have l: "list_all (\<lambda>kv. task_retries (snd kv) \<le> 5)
     (fst (processGoogleSheetUpdates_with attempt_fails (?tasks, ?w)))"
    by (simp only: list_all_iff)
  have r: "task_retries task_failed \<le> 5" "task_retries (task_1 4) \<le> 5"
    by (simp_all add: task_failed_def task_1_def)
  from r m f ev l k show ?thesis by (simp only: simp_thms)
qed

text \<open>
  Claim C9. A step whose attempt on a pending task returns removes that task's key from
  the registry in that same step; and a registry without completed entries has none
  after any sequence of steps, nor when the loop returns.
\<close>

theorem success_removes_no_completed:
  "(map_of tasks k = Some task \<and> task_status task = pending \<and>
    fst (attempt (task_robotId task) (task_runId task)
           (record_event (processing_line k task) w)) = Inr () \<longrightarrow>
      k \<notin> fst ` set (fst (process_entry attempt k (tasks, w, b)))) \<and>
   ((\<forall>kv \<in> set tasks. task_status (snd kv) \<noteq> completed) \<longrightarrow>
      (\<forall>kv \<in> set (fst (scan attempt ks (tasks, w, b))). task_status (snd kv) \<noteq> completed) \<and>
      (\<forall>kv \<in> set (fst (processGoogleSheetUpdates_with attempt (tasks, w))).
         task_status (snd kv) \<noteq> completed))"
proof -
  let ?at = "attempt (task_robotId task) (task_runId task) (record_event (processing_line k task) w)"
  have 1: "k \<notin> fst ` set (fst (process_entry attempt k (tasks, w, b)))"
    if "map_of tasks k = Some task" and "task_status task = pending" and "fst ?at = Inr ()"
  proof -
    from that(3) have "?at = (Inr (), snd ?at)" by (metis prod.collapse)
    from process_entry_success[where attempt = attempt and w = w and b = b, OF that(1,2) this] show ?thesis
      by (auto simp add: reg_delete_def)
  qed
  have 2: "\<forall>kv \<in> set (fst (scan attempt ks (tasks, w, b))). task_status (snd kv) \<noteq> completed"
    if "\<forall>kv \<in> set tasks. task_status (snd kv) \<noteq> completed"
    using scan_no_completed[OF that] by simp
  have 3: "\<forall>kv \<in> set (fst (processGoogleSheetUpdates_with attempt (tasks, w))).
             task_status (snd kv) \<noteq> completed"
    if "\<forall>kv \<in> set tasks. task_status (snd kv) \<noteq> completed"
    by (rule loop_invariant[where I = "\<lambda>ts. \<forall>kv \<in> set ts. task_status (snd kv) \<noteq> completed"])
       (use that in \<open>simp_all add: scan_no_completed\<close>)
  from 1 2 3 show ?thesis by blast
qed

theorem success_removes_no_completed_witness:
  "map_of [(''run-1'', task_1 0)] ''run-1'' = Some (task_1 0) \<and>
   task_status (task_1 0) = pending \<and>
   fst (attempt_ok ''robot-1'' ''run-1''
          (record_event (processing_line ''run-1'' (task_1 0))
             (mk_world run_structured robot_configured api_ok))) = Inr () \<and>
   ''run-1'' \<notin> fst ` set (fst (process_entry attempt_ok ''run-1''
      ([(''run-1'', task_1 0)], mk_world run_structured robot_configured api_ok, False))) \<and>
   list_all (\<lambda>kv. task_status (snd kv) \<noteq> completed)
     (fst (processGoogleSheetUpdates_with attempt_fails
        ([(''run-1'', task_1 0)], mk_world run_structured robot_configured api_ok)))"
proof -
  let ?tasks = "[(''run-1'', task_1 0)]"
  let ?w = "mk_world run_structured robot_configured api_ok"
  have m: "map_of ?tasks ''run-1'' = Some (task_1 0)" and p: "task_status (task_1 0) = pending"
    by (simp_all add: task_1_def)
  have a: "fst (attempt_ok (task_robotId (task_1 0)) (task_runId (task_1 0))
             (record_event (processing_line ''run-1'' (task_1 0)) ?w)) = Inr ()"
    by (simp add: attempt_ok_def io_return_def)
  have n: "\<forall>kv \<in> set ?tasks. task_status (snd kv) \<noteq> completed" by (simp add: task_1_def)
  from success_removes_no_completed[of ?tasks "''run-1''" "task_1 0" attempt_ok ?w False "[]"] m p a
  have 1: "''run-1'' \<notin> fst ` set (fst (process_entry attempt_ok ''run-1'' (?tasks, ?w, False)))"
    by blast
  from success_removes_no_completed[of ?tasks "''run-1''" "task_1 0" attempt_fails ?w False "[]"] n
  have "\<forall>kv \<in> set (fst (processGoogleSheetUpdates_with attempt_fails (?tasks, ?w))).
          task_status (snd kv) \<noteq> completed"
    by blast
  then have 2: "list_all (\<lambda>kv. task_status (snd kv) \<noteq> completed)
     (fst (processGoogleSheetUpdates_with attempt_fails (?tasks, ?w)))"
    by (simp only: list_all_iff)
  have a': "fst (attempt_ok ''robot-1'' ''run-1''
          (record_event (processing_line ''run-1'' (task_1 0)) ?w)) = Inr ()"
    by (simp add: attempt_ok_def io_return_def)
  from m p a' 1 2 show ?thesis by (simp only: simp_thms)
qed

text \<open>
  Claim C6. The loop is a total function: it always returns. On a registry with unique
  keys, if a pass finds no pending entry (however many failed ones there are) the loop
  exits after that pass with the registry unchanged and without setting a timer; if some
  entry is pending, it sets the 5000 ms timer after the pass and goes on with the next
  pass; and when it has returned no entry is pending.
\<close>

theorem loop_exits_iff_no_pending:
  assumes "distinct (map fst tasks)"
  shows
    "((\<forall>kv \<in> set tasks. task_status (snd kv) \<noteq> pending) \<longrightarrow>
        processGoogleSheetUpdates_with attempt (tasks, w) =
          (tasks, record_event (ConsoleLog ''No pending tasks. Exiting loop.'')
                    (fst (snd (scan attempt (map fst tasks) (tasks, w, False))))) \<and>
        timeouts (trace (snd (processGoogleSheetUpdates_with attempt (tasks, w)))) =
          timeouts (trace w)) \<and>
     ((\<exists>kv \<in> set tasks. task_status (snd kv) = pending) \<longrightarrow>
        processGoogleSheetUpdates_with attempt (tasks, w) =
          processGoogleSheetUpdates_with attempt
            (fst (scan attempt (map fst tasks) (tasks, w, False)),
             record_event (SetTimeout 5000)
               (record_event (ConsoleLog ''Waiting for 5 seconds before checking again...'')
                  (fst (snd (scan attempt (map fst tasks) (tasks, w, False))))))) \<and>
     (\<forall>kv \<in> set (fst (processGoogleSheetUpdates_with attempt (tasks, w))).
        task_status (snd kv) \<noteq> pending)"
proof -
  let ?sc = "scan attempt (map fst tasks) (tasks, w, False)"
  have flag: "snd (snd ?sc) = (\<exists>kv \<in> set tasks. task_status (snd kv) = pending)"
  proof -
    have "snd (snd ?sc) = (\<exists>k \<in> set (map fst tasks). \<exists>t. map_of tasks k = Some t \<and> task_status t = pending)"
      by (simp add: scan_flag)
    also have "\<dots> = (\<exists>kv \<in> set tasks. task_status (snd kv) = pending)"
      using assms by (force simp add: map_of_eq_Some_iff)
    finally show ?thesis .
  qed
  have 1: "processGoogleSheetUpdates_with attempt (tasks, w) =
          (tasks, record_event (ConsoleLog ''No pending tasks. Exiting loop.'') (fst (snd ?sc))) \<and>
        timeouts (trace (snd (processGoogleSheetUpdates_with attempt (tasks, w)))) =
          timeouts (trace w)"
    if np: "\<forall>kv \<in> set tasks. task_status (snd kv) \<noteq> pending"
  proof -
    from np flag have nf: "\<not> snd (snd ?sc)" by simp
    from np have "\<forall>k t. map_of tasks k = Some t \<longrightarrow> task_status t \<noteq> pending"
      using map_of_all_iff[OF assms, of "\<lambda>t. task_status t \<noteq> pending"] by blast
    from scan_idle[OF this, of attempt "map fst tasks" w False]
    have "fst ?sc = tasks" and "timeouts (trace (fst (snd ?sc))) = timeouts (trace w)" by simp_all
    with loop_exit[OF nf] show ?thesis by (simp add: record_event_def)
  qed
  have 2: "processGoogleSheetUpdates_with attempt (tasks, w) =
          processGoogleSheetUpdates_with attempt
            (fst ?sc,
             record_event (SetTimeout 5000)
               (record_event (ConsoleLog ''Waiting for 5 seconds before checking again...'')
                  (fst (snd ?sc))))"
    if "\<exists>kv \<in> set tasks. task_status (snd kv) = pending"
    using that flag by (intro loop_continue) simp
  have d: "distinct (map fst (fst (processGoogleSheetUpdates_with attempt (tasks, w))))"
    by (rule loop_invariant[where I = "\<lambda>ts. distinct (map fst ts)"])
       (use assms in \<open>simp_all add: scan_distinct\<close>)
  have 3: "\<forall>kv \<in> set (fst (processGoogleSheetUpdates_with attempt (tasks, w))).
        task_status (snd kv) \<noteq> pending"
    using loop_drains[of attempt "(tasks, w)"] map_of_all_iff[OF d, of "\<lambda>t. task_status t \<noteq> pending"]
    by simp
  from 1 2 3 show ?thesis by blast
qed

lemma scan_mixed:
  "fst (scan updateGoogleSheet [''run-0'', ''run-1'']
          (registry_mixed, mk_world run_structured robot_configured api_down, False)) =
     [(''run-0'', task_failed)] \<and>
   timeouts (trace (fst (snd (scan updateGoogleSheet [''run-0'', ''run-1'']
          (registry_mixed, mk_world run_structured robot_configured api_down, False))))) = []"
  by (simp add: registry_mixed_def process_entry_def io_defs gsheet_defs example_defs
      task_failed_def reg_delete_def Let_def)

theorem loop_exits_iff_no_pending_witness:
  "distinct (map fst registry_mixed) \<and>
   (\<exists>kv \<in> set registry_mixed. task_status (snd kv) = pending) \<and>
   task_status task_failed \<noteq> pending \<and>
   fst (processGoogleSheetUpdates_with updateGoogleSheet
          (registry_mixed, mk_world run_structured robot_configured api_down)) =
     [(''run-0'', task_failed)] \<and>
   timeouts (trace (snd (processGoogleSheetUpdates_with updateGoogleSheet
          (registry_mixed, mk_world run_structured robot_configured api_down)))) = [5000]"
proof -
  let ?w = "mk_world run_structured robot_configured api_down"
  let ?sc = "scan updateGoogleSheet (map fst registry_mixed) (registry_mixed, ?w, False)"
  let ?w' = "record_event (SetTimeout 5000)
               (record_event (ConsoleLog ''Waiting for 5 seconds before checking again...'')
                  (fst (snd ?sc)))"
  have keys: "map fst registry_mixed = [''run-0'', ''run-1'']" by (simp add: registry_mixed_def)
  have d: "distinct (map fst registry_mixed)" by (simp add: keys)
  have p: "\<exists>kv \<in> set registry_mixed. task_status (snd kv) = pending"
    by (simp add: registry_mixed_def task_1_def)
  have f: "\<forall>kv \<in> set [(''run-0'', task_failed)]. task_status (snd kv) \<noteq> pending"
    by (simp add: task_failed_def)
  have sc: "fst ?sc = [(''run-0'', task_failed)]" and tm: "timeouts (trace (fst (snd ?sc))) = []"
    using scan_mixed by (simp_all add: keys)
  from loop_exits_iff_no_pending[OF d, of updateGoogleSheet ?w] p
  have "processGoogleSheetUpdates_with updateGoogleSheet (registry_mixed, ?w) =
           processGoogleSheetUpdates_with updateGoogleSheet (fst ?sc, ?w')"
    by blast
  then have 1: "processGoogleSheetUpdates_with updateGoogleSheet (registry_mixed, ?w) =
           processGoogleSheetUpdates_with updateGoogleSheet ([(''run-0'', task_failed)], ?w')"
    by (simp only: sc)
  have d': "distinct (map fst [(''run-0'', task_failed)])" by simp
  from loop_exits_iff_no_pending[OF d', of updateGoogleSheet ?w'] f
  have e: "processGoogleSheetUpdates_with updateGoogleSheet ([(''run-0'', task_failed)], ?w') =
             ([(''run-0'', task_failed)],
              record_event (ConsoleLog ''No pending tasks. Exiting loop.'')
                (fst (snd (scan updateGoogleSheet (map fst [(''run-0'', task_failed)])
                             ([(''run-0'', task_failed)], ?w', False)))))"
    and 3: "timeouts (trace (snd (processGoogleSheetUpdates_with updateGoogleSheet
               ([(''run-0'', task_failed)], ?w')))) = timeouts (trace ?w')"
    by blast+
  have 2: "fst (processGoogleSheetUpdates_with updateGoogleSheet ([(''run-0'', task_failed)], ?w')) =
             [(''run-0'', task_failed)]"
    by (simp only: e fst_conv)
  have 4: "timeouts (trace ?w') = [5000]" using tm by (simp add: record_event_def)
  have f': "task_status task_failed \<noteq> pending" by (simp add: task_failed_def)
  from d p f' 1 2 3 4 show ?thesis by (simp only: simp_thms)
qed

end
